theory Spec2Isabelle
  imports Complex_Main "HOL-Library.Word"
begin

section \<open>Data model of views.go\<close>

text \<open>
  A Go \<^verbatim>\<open>interface{}\<close> value as it occurs in view rows and in the query parameters:
  the nil interface, the decoded JSON shapes (bool, float64, string, []interface{},
  map[string]interface{}) and the \<^verbatim>\<open>uint64\<close> that the callers store under
  \<^verbatim>\<open>limit\<close> and \<^verbatim>\<open>group_level\<close>. The float64 values are the type parameter \<open>'f\<close>: the
  model fixes neither their representation nor their arithmetic. A slice \<^verbatim>\<open>[]interface{}\<close>
  is \<open>Array xs rest\<close>: \<open>xs\<close> are its elements and \<open>rest\<close> the elements of its backing array
  between its length and its capacity, which a slice expression can reach. A map is an
  association list.
\<close>

datatype 'f val =
    Null
  | Bool bool
  | Uint64 "64 word"
  | Float64 'f
  | String string
  | Array "'f val list" "'f val list"
  | Object "(string \<times> 'f val) list"

text \<open>
  A run-time panic of the Go code (a failed type assertion without comma-ok, an index or a
  slice bound out of range) and the error values that the functions return.
\<close>

datatype panic = TypeAssertion | IndexOutOfRange | SliceBounds

datatype error = ReverseNotSupported | UnsupportedReduceFunction | FetchFailed string

text \<open>
  \<^verbatim>\<open>ViewRow\<close> and \<^verbatim>\<open>ViewResult\<close> are declared outside views.go; the fields are the ones
  that views.go reads and writes. \<^verbatim>\<open>Rows\<close> is a slice of \<^verbatim>\<open>*ViewRow\<close> (the reduce
  functions take \<^verbatim>\<open>[]*ViewRow\<close> and are applied to \<^verbatim>\<open>result.Rows\<close>); the model keeps
  the rows themselves in the list and writes a store through a row pointer as an update
  of the list element.
\<close>

record 'f ViewRow =
  ID :: string
  Key :: "'f val"
  Value :: "'f val"
  Doc :: "'f val option"

record 'f ViewResult =
  TotalRows :: int
  Rows :: "'f ViewRow list"

type_synonym 'f params = "string \<rightharpoonup> 'f val"

type_synonym bytes = "8 word list"

text \<open>\<^verbatim>\<open>bucket.GetRaw(id)\<close>: the raw document or the bucket's error.\<close>

type_synonym bucket = "string \<Rightarrow> error + bytes"

text \<open>\<^verbatim>\<open>collator.Collate\<close>, declared outside views.go, is a parameter of the model.\<close>

type_synonym 'f collator = "'f val \<Rightarrow> 'f val \<Rightarrow> int"

type_synonym 'f reducer = "'f ViewRow list \<Rightarrow> 'f ViewRow \<times> error option"

text \<open>
  The float64 operations of views.go, parameters of the model: the conversion
  \<^verbatim>\<open>float64(n)\<close> of an int and the addition of \<^verbatim>\<open>total += x\<close>, which rounds and overflows.
\<close>

record 'f arith =
  float64 :: "int \<Rightarrow> 'f"
  plus64 :: "'f \<Rightarrow> 'f \<Rightarrow> 'f"

section \<open>Reading the parameters\<close>

text \<open>
  \<^verbatim>\<open>params[k]\<close>: indexing a Go map (also the nil map) with an absent key gives the nil
  interface.
\<close>

definition param :: "'f params \<Rightarrow> string \<Rightarrow> 'f val" where
  "param ps k = (case ps k of None \<Rightarrow> Null | Some v \<Rightarrow> v)"

text \<open>The comma-ok type assertions \<^verbatim>\<open>v.(bool)\<close> and \<^verbatim>\<open>v.(uint64)\<close>.\<close>

fun asBool :: "'f val \<Rightarrow> bool option" where
  "asBool (Bool b) = Some b"
| "asBool _ = None"

fun asUint64 :: "'f val \<Rightarrow> 64 word option" where
  "asUint64 (Uint64 w) = Some w"
| "asUint64 _ = None"

definition includeDocsOf :: "'f params \<Rightarrow> bool" where
  "includeDocsOf ps = (case asBool (param ps ''include_docs'') of Some b \<Rightarrow> b | None \<Rightarrow> False)"

text \<open>\<^verbatim>\<open>limit = int(plimit)\<close>: the conversion of a uint64 to a 64-bit int wraps.\<close>

definition limitOf :: "'f params \<Rightarrow> int" where
  "limitOf ps = (case asUint64 (param ps ''limit'') of Some plimit \<Rightarrow> sint plimit | None \<Rightarrow> 0)"

definition reverseOf :: "'f params \<Rightarrow> bool" where
  "reverseOf ps = (case asBool (param ps ''reverse'') of Some b \<Rightarrow> b | None \<Rightarrow> False)"

definition reduceOf :: "'f params \<Rightarrow> bool" where
  "reduceOf ps = (case asBool (param ps ''reduce'') of Some reduceParam \<Rightarrow> reduceParam | None \<Rightarrow> True)"

text \<open>Lines 54 to 70: the effective startkey, endkey and inclusiveEnd.\<close>

definition boundaries :: "'f params \<Rightarrow> 'f val \<times> 'f val \<times> bool" where
  "boundaries ps =
     (let startkey = param ps ''startkey'';
          startkey = (if startkey = Null then param ps ''start_key'' else startkey);
          endkey = param ps ''endkey'';
          endkey = (if endkey = Null then param ps ''end_key'' else endkey);
          key = param ps ''key''
      in if key \<noteq> Null then (key, key, True)
         else (startkey, endkey,
               (case asBool (param ps ''inclusive_end'') of Some v \<Rightarrow> v | None \<Rightarrow> True)))"

section \<open>Range selection\<close>

text \<open>
  \<^verbatim>\<open>sort.Search(n, f)\<close> of the Go standard library: the bisection loop with
  \<^verbatim>\<open>i, j := 0, n\<close> and \<^verbatim>\<open>h := int(uint(i+j) >> 1)\<close>.
\<close>

function searchLoop :: "(nat \<Rightarrow> bool) \<Rightarrow> nat \<Rightarrow> nat \<Rightarrow> nat" where
  "searchLoop f i j =
     (if i < j then
        (let h = (i + j) div 2
         in if \<not> f h then searchLoop f (h + 1) j else searchLoop f i h)
      else i)"
  by pat_completeness auto
termination
  by (relation "measure (\<lambda>(f, i, j). j - i)") auto

declare searchLoop.simps [simp del]

definition Search :: "nat \<Rightarrow> (nat \<Rightarrow> bool) \<Rightarrow> nat" where
  "Search n f = searchLoop f 0 n"

text \<open>Lines 74 to 79.\<close>

definition trimStart :: "'f collator \<Rightarrow> 'f val \<Rightarrow> 'f ViewRow list \<Rightarrow> 'f ViewRow list" where
  "trimStart coll startkey rows =
     (if startkey \<noteq> Null then
        (let i = Search (length rows) (\<lambda>i. coll (Key (rows ! i)) startkey \<ge> 0)
         in drop i rows)
      else rows)"

text \<open>Lines 81 to 83.\<close>

definition applyLimit :: "int \<Rightarrow> 'f ViewRow list \<Rightarrow> 'f ViewRow list" where
  "applyLimit limit rows =
     (if limit > 0 \<and> int (length rows) > limit then take (nat limit) rows else rows)"

text \<open>Lines 85 to 94.\<close>

definition trimEnd :: "'f collator \<Rightarrow> 'f val \<Rightarrow> bool \<Rightarrow> 'f ViewRow list \<Rightarrow> 'f ViewRow list" where
  "trimEnd coll endkey inclusiveEnd rows =
     (if endkey \<noteq> Null then
        (let limit = (if \<not> inclusiveEnd then -1 else 0);
             i = Search (length rows) (\<lambda>i. coll (Key (rows ! i)) endkey > limit)
         in take i rows)
      else rows)"

section \<open>Inlining the documents\<close>

text \<open>
  Lines 97 to 109. \<^verbatim>\<open>newRows[i] = row; newRows[i].Doc = &parsedDoc\<close> stores through the
  row pointer, which \<^verbatim>\<open>result.Rows\<close> shares: when a later fetch fails, the rows returned
  with the error are the rows visited so far with their documents attached, followed by the
  others unchanged. \<^verbatim>\<open>json.Unmarshal\<close> is a parameter; its error is dropped by the code.
\<close>

fun inlineDocs :: "(bytes \<Rightarrow> 'f val) \<Rightarrow> bucket \<Rightarrow> 'f ViewRow list \<Rightarrow> 'f ViewRow list \<times> error option" where
  "inlineDocs unmarshal bucket [] = ([], None)"
| "inlineDocs unmarshal bucket (row # rows) =
     (case bucket (ID row) of
        Inl err \<Rightarrow> (row # rows, Some err)
      | Inr raw \<Rightarrow>
          (let parsedDoc = unmarshal raw;
               (newRows, err) = inlineDocs unmarshal bucket rows
           in (row\<lparr>Doc := Some parsedDoc\<rparr> # newRows, err)))"

section \<open>Reduce functions\<close>

text \<open>
  Modelled from the spec: \<^verbatim>\<open>collationToFloat64\<close> is declared outside views.go. Section
  4.4: the numeric-extraction rule of the number comparison, and a non-numeric value
  contributes 0.
\<close>

fun collationToFloat64 :: "'f arith \<Rightarrow> 'f val \<Rightarrow> 'f" where
  "collationToFloat64 num (Float64 x) = x"
| "collationToFloat64 num (Uint64 w) = float64 num (uint w)"
| "collationToFloat64 num _ = float64 num 0"

text \<open>\<^verbatim>\<open>&ViewRow{Value: v}\<close>: the other fields have their zero values.\<close>

definition newViewRow :: "'f val \<Rightarrow> 'f ViewRow" where
  "newViewRow v = \<lparr>ID = [], Key = Null, Value = v, Doc = None\<rparr>"

text \<open>
  Lines 185 to 205. The loop of \<open>_sum\<close> starts from \<^verbatim>\<open>float64(0)\<close> and adds the row values
  from left to right with the float64 addition.
\<close>

definition ReduceFunc :: "'f arith \<Rightarrow> string \<Rightarrow> error + 'f reducer" where
  "ReduceFunc num reduceFunction =
     (if reduceFunction = ''_count'' then
        Inr (\<lambda>rows. (newViewRow (Float64 (float64 num (int (length rows)))), None))
      else if reduceFunction = ''_sum'' then
        Inr (\<lambda>rows.
          (let total = foldl (\<lambda>total row. plus64 num total (collationToFloat64 num (Value row)))
                         (float64 num 0) rows
           in (newViewRow (Float64 total), None)))
      else Inl UnsupportedReduceFunction)"

section \<open>Grouping and reduction\<close>

text \<open>
  \<^verbatim>\<open>key.([]interface{})[0:groupLevel]\<close>: the type assertion panics on anything but a
  slice; the slice expression panics unless \<open>0 \<le> groupLevel \<le> cap(key)\<close>, and otherwise
  returns the first \<open>groupLevel\<close> elements of the backing array, which lie beyond the
  length of \<open>key\<close> when \<open>groupLevel\<close> exceeds it, with the remaining capacity.
\<close>

definition keyPrefix :: "int \<Rightarrow> 'f val \<Rightarrow> panic + 'f val list \<times> 'f val list" where
  "keyPrefix groupLevel key =
     (case key of
        Array xs rest \<Rightarrow>
          (if 0 \<le> groupLevel \<and> groupLevel \<le> int (length xs + length rest)
           then Inr (take (nat groupLevel) (xs @ rest), drop (nat groupLevel) (xs @ rest))
           else Inl SliceBounds)
      | _ \<Rightarrow> Inl TypeAssertion)"

text \<open>Lines 128 to 133; \<^verbatim>\<open>int(params["group_level"].(uint64))\<close> wraps like the limit.\<close>

definition groupLevelOf :: "'f params \<Rightarrow> panic + int" where
  "groupLevelOf ps =
     (let other =
            (if param ps ''group_level'' \<noteq> Null then
               (case param ps ''group_level'' of
                  Uint64 w \<Rightarrow> Inr (sint w)
                | _ \<Rightarrow> Inl TypeAssertion)
             else Inr 0)
      in if param ps ''group'' \<noteq> Null then
           (case param ps ''group'' of
              Bool b \<Rightarrow> (if b = True then Inr (- 1) else other)
            | _ \<Rightarrow> Inl TypeAssertion)
         else other)"

text \<open>Lines 144 to 148, and 136 to 140: the key of a row at a group level.\<close>

definition groupKey :: "int \<Rightarrow> 'f val \<Rightarrow> panic + 'f val" where
  "groupKey groupLevel key =
     (if groupLevel \<noteq> - 1 then
        (case keyPrefix groupLevel key of
           Inl p \<Rightarrow> Inl p
         | Inr (xs, rest) \<Rightarrow> Inr (Array xs rest))
      else Inr key)"

text \<open>
  The loop of lines 143 to 163 on the rows still to visit, with the loop variables
  \<open>key\<close>, \<open>inRows\<close> and \<open>outRows\<close>. The result is a panic, the error of the reduce function
  (an early return), or the variables after the last row.
\<close>

fun groupRows :: "'f collator \<Rightarrow> int \<Rightarrow> 'f reducer \<Rightarrow> 'f ViewRow list \<Rightarrow> 'f val \<Rightarrow> 'f ViewRow list \<Rightarrow> 'f ViewRow list
    \<Rightarrow> panic + (error + 'f val \<times> 'f ViewRow list \<times> 'f ViewRow list)" where
  "groupRows coll groupLevel reduceFun [] key inRows outRows = Inr (Inr (key, inRows, outRows))"
| "groupRows coll groupLevel reduceFun (row # rows) key inRows outRows =
     (case groupKey groupLevel (Key row) of
        Inl p \<Rightarrow> Inl p
      | Inr inKey \<Rightarrow>
          (let collated = coll inKey key
           in if collated = 0 then
                groupRows coll groupLevel reduceFun rows key (inRows @ [row]) outRows
              else
                (case reduceFun inRows of
                   (outRow, Some outErr) \<Rightarrow> Inr (Inl outErr)
                 | (outRow, None) \<Rightarrow>
                     groupRows coll groupLevel reduceFun rows inKey [row]
                       (outRows @ [outRow\<lparr>Key := key\<rparr>]))))"

text \<open>
  \<^verbatim>\<open>ReduceViewResult\<close> updates \<^verbatim>\<open>*result\<close> and returns an error: the model returns the
  result after the call together with the error.
\<close>

definition ReduceViewResult :: "'f collator \<Rightarrow> 'f arith \<Rightarrow> string \<Rightarrow> 'f params \<Rightarrow> 'f ViewResult
    \<Rightarrow> panic + 'f ViewResult \<times> error option" where
  "ReduceViewResult coll num reduceFunction ps result =
     (case ReduceFunc num reduceFunction of
        Inl compileErr \<Rightarrow> Inr (result, Some compileErr)
      | Inr reduceFun \<Rightarrow>
          (case groupLevelOf ps of
             Inl p \<Rightarrow> Inl p
           | Inr groupLevel \<Rightarrow>
               if groupLevel \<noteq> 0 then
                 (case Rows result of
                    [] \<Rightarrow> Inl IndexOutOfRange
                  | row0 # _ \<Rightarrow>
                      (case groupKey groupLevel (Key row0) of
                         Inl p \<Rightarrow> Inl p
                       | Inr key0 \<Rightarrow>
                           (case groupRows coll groupLevel reduceFun (Rows result) key0 [] [] of
                              Inl p \<Rightarrow> Inl p
                            | Inr (Inl outErr) \<Rightarrow> Inr (result, Some outErr)
                            | Inr (Inr (key, inRows, outRows)) \<Rightarrow>
                                (case reduceFun inRows of
                                   (outRow, Some outErr) \<Rightarrow> Inr (result, Some outErr)
                                 | (outRow, None) \<Rightarrow>
                                     Inr (result\<lparr>Rows := outRows @ [outRow\<lparr>Key := key\<rparr>]\<rparr>,
                                          None)))))
               else
                 (case reduceFun (Rows result) of
                    (row, Some err) \<Rightarrow> Inr (result, Some err)
                  | (row, None) \<Rightarrow> Inr (result\<lparr>Rows := [row]\<rparr>, None))))"

section \<open>The query pipeline\<close>

text \<open>
  \<^verbatim>\<open>ProcessViewResult\<close> returns a result and an error, or panics. The logging call is
  left out.
\<close>

definition ProcessViewResult :: "'f collator \<Rightarrow> 'f arith \<Rightarrow> (bytes \<Rightarrow> 'f val) \<Rightarrow> 'f ViewResult \<Rightarrow> 'f params \<Rightarrow> bucket \<Rightarrow> string
    \<Rightarrow> panic + 'f ViewResult \<times> error option" where
  "ProcessViewResult coll num unmarshal result ps bucket reduceFunction =
     (let includeDocs = includeDocsOf ps;
          limit = limitOf ps;
          reverse = reverseOf ps;
          reduce = reduceOf ps
      in if reverse then Inr (result, Some ReverseNotSupported)
         else
           (let (startkey, endkey, inclusiveEnd) = boundaries ps;
                result = result\<lparr>Rows := trimStart coll startkey (Rows result)\<rparr>;
                result = result\<lparr>Rows := applyLimit limit (Rows result)\<rparr>;
                result = result\<lparr>Rows := trimEnd coll endkey inclusiveEnd (Rows result)\<rparr>
            in case (if includeDocs then inlineDocs unmarshal bucket (Rows result)
                     else (Rows result, None)) of
                 (rows, Some err) \<Rightarrow> Inr (result\<lparr>Rows := rows\<rparr>, Some err)
               | (rows, None) \<Rightarrow>
                   (let result = result\<lparr>Rows := rows\<rparr>
                    in case (if reduce \<and> reduceFunction \<noteq> []
                             then ReduceViewResult coll num reduceFunction ps result
                             else Inr (result, None)) of
                         Inl p \<Rightarrow> Inl p
                       | Inr (result, Some err) \<Rightarrow> Inr (result, Some err)
                       | Inr (result, None) \<Rightarrow>
                           Inr (result\<lparr>TotalRows := int (length (Rows result))\<rparr>, None))))"

section \<open>The collation order\<close>

text \<open>The three-way comparison of a linear order, with the results \<open>-1\<close>, \<open>0\<close> and \<open>1\<close>.\<close>

definition compareOrd :: "'a::linorder \<Rightarrow> 'a \<Rightarrow> int" where
  "compareOrd a b = (if a < b then - 1 else if b < a then 1 else 0)"

text \<open>
  Rule 4: element-wise in order, the first differing element decides, and a sequence that
  is a prefix of a longer one sorts first.
\<close>

fun collateSeq :: "('a \<Rightarrow> 'a \<Rightarrow> int) \<Rightarrow> 'a list \<Rightarrow> 'a list \<Rightarrow> int" where
  "collateSeq c [] [] = 0"
| "collateSeq c [] (y # ys) = - 1"
| "collateSeq c (x # xs) [] = 1"
| "collateSeq c (x # xs) (y # ys) = (if c x y = 0 then collateSeq c xs ys else c x y)"

lemma collateSeq_cong [fundef_cong]:
  "xs = xs' \<Longrightarrow> ys = ys' \<Longrightarrow> (\<And>x y. x \<in> set xs' \<Longrightarrow> y \<in> set ys' \<Longrightarrow> c x y = c' x y)
   \<Longrightarrow> collateSeq c xs ys = collateSeq c' xs' ys'"
proof (induction c xs ys arbitrary: xs' ys' rule: collateSeq.induct)
qed auto

text \<open>Rule 1: \<open>null < false < true < number < string < array < object\<close>.\<close>

fun collationType :: "'f val \<Rightarrow> nat" where
  "collationType Null = 0"
| "collationType (Bool False) = 1"
| "collationType (Bool True) = 2"
| "collationType (Uint64 w) = 3"
| "collationType (Float64 x) = 3"
| "collationType (String s) = 4"
| "collationType (Array xs rest) = 5"
| "collationType (Object es) = 6"

text \<open>
  Rule 3: strings compare by their code point sequence; on the UTF-8 bytes of a Go string
  that is the byte-wise comparison.
\<close>

definition compareChar :: "char \<Rightarrow> char \<Rightarrow> int" where
  "compareChar a b = compareOrd (of_char a :: nat) (of_char b)"

definition compareString :: "string \<Rightarrow> string \<Rightarrow> int" where
  "compareString s t = collateSeq compareChar s t"

text \<open>Rule 5: the entries of an object sorted by key, each compared key first, then value.\<close>

fun insertEntry :: "string \<times> 'v \<Rightarrow> (string \<times> 'v) list \<Rightarrow> (string \<times> 'v) list" where
  "insertEntry e [] = [e]"
| "insertEntry e (f # fs) =
     (if compareString (fst e) (fst f) \<le> 0 then e # f # fs else f # insertEntry e fs)"

definition sortEntries :: "(string \<times> 'v) list \<Rightarrow> (string \<times> 'v) list" where
  "sortEntries es = foldr insertEntry es []"

lemma set_insertEntry: "set (insertEntry e fs) = insert e (set fs)"
  by (induction fs) auto

lemma set_sortEntries: "set (sortEntries es) = set es"
  by (induction es) (auto simp: sortEntries_def set_insertEntry)

lemma size_elem_less: "x \<in> set xs \<Longrightarrow> size x < Suc (size_list size xs)"
  by (induction xs) auto

lemma size_elem_less_add: "x \<in> set xs \<Longrightarrow> size x < Suc (size_list size xs + n)"
  by (induction xs) auto

lemma size_entry_less: "(k, v) \<in> set es \<Longrightarrow> size v < Suc (size_list (size_prod (\<lambda>x. 0) size) es)"
  by (induction es) auto

definition collateEntry :: "('v \<Rightarrow> 'v \<Rightarrow> int) \<Rightarrow> string \<times> 'v \<Rightarrow> string \<times> 'v \<Rightarrow> int" where
  "collateEntry c e f =
     (if compareString (fst e) (fst f) = 0 then c (snd e) (snd f) else compareString (fst e) (fst f))"

lemma collateEntry_cong [fundef_cong]:
  "e = e' \<Longrightarrow> f = f' \<Longrightarrow> c (snd e') (snd f') = c' (snd e') (snd f')
   \<Longrightarrow> collateEntry c e f = collateEntry c' e' f'"
  by (simp add: collateEntry_def)

text \<open>
  The arithmetic of the reals, which is the float64 arithmetic wherever nothing rounds. It
  gives the numbers that the collation order compares, and the arithmetic of the examples.
\<close>

definition exactArith :: "real arith" where
  "exactArith = \<lparr>float64 = real_of_int, plus64 = (+)\<rparr>"

text \<open>
  Modelled from the spec: \<^verbatim>\<open>JSONCollator.Collate\<close> is declared outside views.go. Section
  4.1: the type precedence, then numbers numerically (rule 2, with the numeric extraction
  of \<^const>\<open>collationToFloat64\<close>), strings, arrays and objects by the rules above. The
  elements of a slice are compared, not the rest of its backing array.
\<close>

function Collate :: "real val \<Rightarrow> real val \<Rightarrow> int" where
  "Collate a b =
     (if collationType a \<noteq> collationType b then compareOrd (collationType a) (collationType b)
      else case (a, b) of
        (String s, String t) \<Rightarrow> compareString s t
      | (Array xs rx, Array ys ry) \<Rightarrow> collateSeq Collate xs ys
      | (Object es, Object fs) \<Rightarrow> collateSeq (collateEntry Collate) (sortEntries es) (sortEntries fs)
      | _ \<Rightarrow> compareOrd (collationToFloat64 exactArith a) (collationToFloat64 exactArith b))"
  by pat_completeness auto
termination
  apply (relation "measure (\<lambda>(a, b). size a)")
    apply (auto simp: set_sortEntries size_elem_less_add size_entry_less)
  done

declare Collate.simps [simp del]

lemma Collate_types:
  "collationType a \<noteq> collationType b \<Longrightarrow> Collate a b = compareOrd (collationType a) (collationType b)"
  by (simp add: Collate.simps)

lemma Collate_String: "Collate (String s) (String t) = compareString s t"
  by (simp add: Collate.simps)

lemma Collate_Array: "Collate (Array xs rx) (Array ys ry) = collateSeq Collate xs ys"
  by (simp add: Collate.simps)

lemma Collate_Object:
  "Collate (Object es) (Object fs) = collateSeq (collateEntry Collate) (sortEntries es) (sortEntries fs)"
  by (simp add: Collate.simps)

lemma Collate_scalar:
  "collationType a = collationType b \<Longrightarrow> collationType a < 4
   \<Longrightarrow> Collate a b = compareOrd (collationToFloat64 exactArith a) (collationToFloat64 exactArith b)"
  by (cases a rule: collationType.cases; cases b rule: collationType.cases) (simp_all add: Collate.simps)

section \<open>Properties of a collator\<close>

text \<open>
  What range selection needs of the collator: the sign of a comparison flips with its
  arguments, and "collates at most" is transitive.
\<close>

definition collatorLaws :: "'f collator \<Rightarrow> bool" where
  "collatorLaws coll \<longleftrightarrow>
     (\<forall>a b. (0 \<le> coll a b) = (coll b a \<le> 0)) \<and>
     (\<forall>a b c. coll a b \<le> 0 \<longrightarrow> coll b c \<le> 0 \<longrightarrow> coll a c \<le> 0)"

definition trans3 :: "('a \<Rightarrow> 'a \<Rightarrow> int) \<Rightarrow> 'a \<Rightarrow> 'a \<Rightarrow> 'a \<Rightarrow> bool" where
  "trans3 c x y z \<longleftrightarrow> (c x y \<le> 0 \<longrightarrow> c y z \<le> 0 \<longrightarrow> c x z \<le> 0)"

definition trans6 :: "('a \<Rightarrow> 'a \<Rightarrow> int) \<Rightarrow> 'a \<Rightarrow> 'a \<Rightarrow> 'a \<Rightarrow> bool" where
  "trans6 c x y z \<longleftrightarrow> trans3 c x y z \<and> trans3 c x z y \<and> trans3 c y x z \<and> trans3 c y z x
     \<and> trans3 c z x y \<and> trans3 c z y x"

section \<open>Specification-level definitions\<close>

text \<open>Section 3: the rows are sorted ascending by key under the collator.\<close>

definition sortedRows :: "'f collator \<Rightarrow> 'f ViewRow list \<Rightarrow> bool" where
  "sortedRows coll rows \<longleftrightarrow> sorted_wrt (\<lambda>a b. coll (Key a) (Key b) \<le> 0) rows"

text \<open>The first index whose element satisfies \<open>P\<close>, the length when there is none.\<close>

definition firstIndex :: "('a \<Rightarrow> bool) \<Rightarrow> 'a list \<Rightarrow> nat" where
  "firstIndex P xs = length (takeWhile (\<lambda>x. \<not> P x) xs)"

text \<open>
  Section 4.2 in the spec's words: drop everything before the first row that collates at
  least startkey; truncate to at most limit rows; cut at the first row that collates
  strictly greater than endkey (inclusive end) or at least endkey (exclusive end).
\<close>

definition startTrimSpec :: "'f collator \<Rightarrow> 'f val \<Rightarrow> 'f ViewRow list \<Rightarrow> 'f ViewRow list" where
  "startTrimSpec coll startkey rows =
     (if startkey = Null then rows
      else drop (firstIndex (\<lambda>r. coll (Key r) startkey \<ge> 0) rows) rows)"

definition limitSpec :: "int \<Rightarrow> 'f ViewRow list \<Rightarrow> 'f ViewRow list" where
  "limitSpec limit rows = (if limit > 0 then take (nat limit) rows else rows)"

definition endTrimSpec :: "'f collator \<Rightarrow> 'f val \<Rightarrow> bool \<Rightarrow> 'f ViewRow list \<Rightarrow> 'f ViewRow list" where
  "endTrimSpec coll endkey inclusiveEnd rows =
     (if endkey = Null then rows
      else take (firstIndex (\<lambda>r. if inclusiveEnd then coll (Key r) endkey > 0
                                  else coll (Key r) endkey \<ge> 0) rows) rows)"



text \<open>
  Section 4.4 in the spec's words: the single row that a reduce function returns, whose
  value is the count of the rows, or the sum of their numeric values, added to 0 one
  after the other in the order of the rows.
\<close>

fun sumFrom :: "'f arith \<Rightarrow> 'f \<Rightarrow> 'f list \<Rightarrow> 'f" where
  "sumFrom num acc [] = acc"
| "sumFrom num acc (x # xs) = sumFrom num (plus64 num acc x) xs"

definition reduceSpec :: "'f arith \<Rightarrow> string \<Rightarrow> 'f ViewRow list \<Rightarrow> 'f ViewRow" where
  "reduceSpec num name rows =
     \<lparr>ID = [], Key = Null,
      Value = Float64 (if name = ''_count'' then float64 num (int (length rows))
                       else sumFrom num (float64 num 0)
                              (map (\<lambda>r. collationToFloat64 num (Value r)) rows)),
      Doc = None\<rparr>"

text \<open>
  Section 4.3 in the spec's words: the document of a row is fetched by the row's \<open>ID\<close>,
  decoded and attached as \<open>Doc\<close>; a fetch fails when the bucket returns an error.
\<close>

definition fetchFails :: "bucket \<Rightarrow> 'f ViewRow \<Rightarrow> bool" where
  "fetchFails bucket r = (case bucket (ID r) of Inl err \<Rightarrow> True | Inr raw \<Rightarrow> False)"

definition attachDoc :: "(bytes \<Rightarrow> 'f val) \<Rightarrow> bucket \<Rightarrow> 'f ViewRow \<Rightarrow> 'f ViewRow" where
  "attachDoc unmarshal bucket r =
     (case bucket (ID r) of Inl err \<Rightarrow> r | Inr raw \<Rightarrow> r\<lparr>Doc := Some (unmarshal raw)\<rparr>)"

definition firstFetchError :: "bucket \<Rightarrow> 'f ViewRow list \<Rightarrow> error option" where
  "firstFetchError bucket rows =
     (case dropWhile (\<lambda>r. \<not> fetchFails bucket r) rows of
        [] \<Rightarrow> None
      | r # _ \<Rightarrow> (case bucket (ID r) of Inl err \<Rightarrow> Some err | Inr raw \<Rightarrow> None))"

text \<open>Rows for the examples of section 8.\<close>

definition keyedRows :: "'f val list \<Rightarrow> 'f ViewRow list" where
  "keyedRows ks = map (\<lambda>k. \<lparr>ID = [], Key = k, Value = Null, Doc = None\<rparr>) ks"

definition valuedRows :: "'f val list \<Rightarrow> 'f ViewRow list" where
  "valuedRows vs = map (\<lambda>v. \<lparr>ID = [], Key = Null, Value = v, Doc = None\<rparr>) vs"

definition noBucket :: bucket where
  "noBucket docid = Inl (FetchFailed docid)"

definition noUnmarshal :: "bytes \<Rightarrow> 'f val" where
  "noUnmarshal raw = Null"

text \<open>A bucket that holds the one-byte document \<open>[1]\<close> under the id \<open>a\<close> and nothing else.\<close>

definition oneDocBucket :: bucket where
  "oneDocBucket docid = (if docid = ''a'' then Inr [1] else Inl (FetchFailed docid))"

definition lengthUnmarshal :: "bytes \<Rightarrow> real val" where
  "lengthUnmarshal raw = Float64 (real (length raw))"

section \<open>The collation order is lawful\<close>

lemma compareOrd_flip: "compareOrd b a = - compareOrd a b"
  by (auto simp: compareOrd_def)

lemma compareOrd_le0: "compareOrd a b \<le> 0 \<longleftrightarrow> a \<le> b"
  by (auto simp: compareOrd_def)

lemma collateSeq_flip:
  "(\<And>x y. x \<in> set xs \<Longrightarrow> y \<in> set ys \<Longrightarrow> c y x = - c x y)
   \<Longrightarrow> collateSeq c ys xs = - collateSeq c xs ys"
proof (induction c xs ys rule: collateSeq.induct)
qed auto

lemma trans6_heads:
  assumes flip: "\<And>a b. c b a = - c a b" and t: "trans6 c x y z"
  shows "c x y \<le> 0 \<Longrightarrow> c y z \<le> 0 \<Longrightarrow> c x z \<le> 0"
    and "c x y \<le> 0 \<Longrightarrow> c y z \<le> 0 \<Longrightarrow> c x z = 0 \<Longrightarrow> c x y = 0 \<and> c y z = 0"
proof -
  assume a: "c x y \<le> 0" "c y z \<le> 0"
  from t a show "c x z \<le> 0" by (simp add: trans6_def trans3_def)
next
  assume a: "c x y \<le> 0" "c y z \<le> 0" "c x z = 0"
  have zx: "c z x \<le> 0" using flip [of z x] a(3) by simp
  have "c z y \<le> 0" using t zx a(1) by (simp add: trans6_def trans3_def)
  moreover have "c y x \<le> 0" using t zx a(2) by (simp add: trans6_def trans3_def)
  ultimately show "c x y = 0 \<and> c y z = 0"
    using a flip [of y z] flip [of x y] by simp
qed

lemma collateSeq_trans:
  assumes flip: "\<And>a b. c b a = - c a b"
  shows "(\<And>x y z. x \<in> set xs \<Longrightarrow> y \<in> set ys \<Longrightarrow> z \<in> set zs \<Longrightarrow> trans6 c x y z)
    \<Longrightarrow> collateSeq c xs ys \<le> 0 \<Longrightarrow> collateSeq c ys zs \<le> 0 \<Longrightarrow> collateSeq c xs zs \<le> 0"
proof (induction xs arbitrary: ys zs)
  case Nil
  then show ?case by (cases zs) auto
next
  case (Cons x xs)
  show ?case
  proof (cases ys)
    case Nil
    with Cons.prems show ?thesis by simp
  next
    case ys: (Cons y ys')
    show ?thesis
    proof (cases zs)
      case Nil
      with Cons.prems ys show ?thesis by simp
    next
      case zs: (Cons z zs')
      have t: "trans6 c x y z" using Cons.prems(1) ys zs by simp
      have xy: "c x y \<le> 0" using Cons.prems(2) ys by (auto split: if_splits)
      have yz: "c y z \<le> 0" using Cons.prems(3) ys zs by (auto split: if_splits)
      have xz: "c x z \<le> 0" using trans6_heads(1) [OF flip t xy yz] .
      show ?thesis
      proof (cases "c x z = 0")
        case True
        then have e: "c x y = 0 \<and> c y z = 0" using trans6_heads(2) [OF flip t xy yz] by simp
        have "collateSeq c xs zs' \<le> 0"
        proof (rule Cons.IH [of ys' zs'])
          show "\<And>x y z. x \<in> set xs \<Longrightarrow> y \<in> set ys' \<Longrightarrow> z \<in> set zs' \<Longrightarrow> trans6 c x y z"
            using Cons.prems(1) ys zs by simp
          show "collateSeq c xs ys' \<le> 0" using Cons.prems(2) ys e by simp
          show "collateSeq c ys' zs' \<le> 0" using Cons.prems(3) ys zs e by simp
        qed
        with True zs show ?thesis by simp
      next
        case False
        with xz zs show ?thesis by simp
      qed
    qed
  qed
qed

lemma compareChar_flip: "compareChar b a = - compareChar a b"
  unfolding compareChar_def by (rule compareOrd_flip)

lemma compareChar_trans6: "trans6 compareChar x y z"
  by (auto simp: trans6_def trans3_def compareChar_def compareOrd_le0)

lemma compareString_flip: "compareString t s = - compareString s t"
  unfolding compareString_def by (rule collateSeq_flip) (rule compareChar_flip)

lemma compareString_trans: "compareString s t \<le> 0 \<Longrightarrow> compareString t u \<le> 0 \<Longrightarrow> compareString s u \<le> 0"
  unfolding compareString_def
  by (rule collateSeq_trans [OF compareChar_flip]) (auto simp: compareChar_trans6)

lemma compareString_trans6: "trans6 compareString x y z"
  using compareString_trans by (auto simp: trans6_def trans3_def)

lemma collateEntry_flip: "c (snd f) (snd e) = - c (snd e) (snd f) \<Longrightarrow> collateEntry c f e = - collateEntry c e f"
  using compareString_flip [of "fst e" "fst f"] by (simp add: collateEntry_def)

lemma collateEntry_trans3:
  assumes flip: "\<And>a b. c b a = - c a b" and t: "trans3 c (snd e) (snd f) (snd g)"
  shows "trans3 (collateEntry c) e f g"
  unfolding trans3_def
proof (intro impI)
  assume a: "collateEntry c e f \<le> 0" "collateEntry c f g \<le> 0"
  have ef: "compareString (fst e) (fst f) \<le> 0" using a(1) by (auto simp: collateEntry_def split: if_splits)
  have fg: "compareString (fst f) (fst g) \<le> 0" using a(2) by (auto simp: collateEntry_def split: if_splits)
  have eg: "compareString (fst e) (fst g) \<le> 0" using compareString_trans [OF ef fg] .
  show "collateEntry c e g \<le> 0"
  proof (cases "compareString (fst e) (fst g) = 0")
    case True
    then have z: "compareString (fst e) (fst f) = 0 \<and> compareString (fst f) (fst g) = 0"
      using trans6_heads(2) [OF compareString_flip compareString_trans6 ef fg] by simp
    then have "c (snd e) (snd f) \<le> 0" "c (snd f) (snd g) \<le> 0"
      using a by (simp_all add: collateEntry_def)
    then have "c (snd e) (snd g) \<le> 0" using t by (simp add: trans3_def)
    with True show ?thesis by (simp add: collateEntry_def)
  next
    case False
    with eg show ?thesis by (simp add: collateEntry_def)
  qed
qed

lemma Collate_flip: "Collate b a = - Collate a b"
proof (induction a b rule: Collate.induct)
  case (1 a b)
  show ?case
  proof (cases "collationType a = collationType b")
    case False
    then show ?thesis
      using compareOrd_flip [of "collationType b" "collationType a"]
      by (simp add: Collate_types)
  next
    case True
    show ?thesis
    proof (cases a)
      case (Array xs rx)
      then obtain ys ry where b: "b = Array ys ry" using True by (cases b rule: collationType.cases) auto
      have "collateSeq Collate ys xs = - collateSeq Collate xs ys"
        by (rule collateSeq_flip) (use 1(1) [OF _ refl Array b] True in simp)
      then show ?thesis using Array b by (simp add: Collate_Array)
    next
      case (Object es)
      then obtain fs where b: "b = Object fs" using True by (cases b rule: collationType.cases) auto
      have "collateSeq (collateEntry Collate) (sortEntries fs) (sortEntries es)
            = - collateSeq (collateEntry Collate) (sortEntries es) (sortEntries fs)"
        by (rule collateSeq_flip, rule collateEntry_flip) (use 1(2) [OF _ refl Object b] True in simp)
      then show ?thesis using Object b by (simp add: Collate_Object)
    next
      case (String s)
      then obtain t where b: "b = String t" using True by (cases b rule: collationType.cases) auto
      show ?thesis using String b compareString_flip [of s t]
        by (simp add: Collate_String)
    next
      case Null
      then have "collationType a < 4" by simp
      then show ?thesis
        using True compareOrd_flip [of "collationToFloat64 exactArith b" "collationToFloat64 exactArith a"]
        by (simp add: Collate_scalar)
    next
      case (Bool x)
      then have "collationType a < 4" by (cases x) simp_all
      then show ?thesis
        using True compareOrd_flip [of "collationToFloat64 exactArith b" "collationToFloat64 exactArith a"]
        by (simp add: Collate_scalar)
    next
      case (Uint64 x)
      then have "collationType a < 4" by simp
      then show ?thesis
        using True compareOrd_flip [of "collationToFloat64 exactArith b" "collationToFloat64 exactArith a"]
        by (simp add: Collate_scalar)
    next
      case (Float64 x)
      then have "collationType a < 4" by simp
      then show ?thesis
        using True compareOrd_flip [of "collationToFloat64 exactArith b" "collationToFloat64 exactArith a"]
        by (simp add: Collate_scalar)
    qed
  qed
qed

lemma Collate_le0_type: "Collate a b \<le> 0 \<Longrightarrow> collationType a \<le> collationType b"
  by (cases "collationType a = collationType b") (auto simp: Collate_types compareOrd_le0)

lemma collationType_cases:
  "collationType a = 4 \<longleftrightarrow> (\<exists>s. a = String s)"
  "collationType a = 5 \<longleftrightarrow> (\<exists>xs rest. a = Array xs rest)"
  "collationType a = 6 \<longleftrightarrow> (\<exists>es. a = Object es)"
  by (cases a rule: collationType.cases; simp)+

lemma collationType_le6: "collationType a \<le> 6"
  by (cases a rule: collationType.cases) simp_all

lemma Collate_trans: "Collate a b \<le> 0 \<Longrightarrow> Collate b c \<le> 0 \<Longrightarrow> Collate a c \<le> 0"
proof (induction "size a + size b + size c" arbitrary: a b c rule: less_induct)
  case less
  have IH: "trans6 Collate x y z" if "size x + size y + size z < size a + size b + size c" for x y z
    unfolding trans6_def trans3_def
  proof (intro conjI impI)
    show "Collate x y \<le> 0 \<Longrightarrow> Collate y z \<le> 0 \<Longrightarrow> Collate x z \<le> 0"
      using less.hyps [of x y z] that by simp
    show "Collate x z \<le> 0 \<Longrightarrow> Collate z y \<le> 0 \<Longrightarrow> Collate x y \<le> 0"
      using less.hyps [of x z y] that by simp
    show "Collate y x \<le> 0 \<Longrightarrow> Collate x z \<le> 0 \<Longrightarrow> Collate y z \<le> 0"
      using less.hyps [of y x z] that by simp
    show "Collate y z \<le> 0 \<Longrightarrow> Collate z x \<le> 0 \<Longrightarrow> Collate y x \<le> 0"
      using less.hyps [of y z x] that by simp
    show "Collate z x \<le> 0 \<Longrightarrow> Collate x y \<le> 0 \<Longrightarrow> Collate z y \<le> 0"
      using less.hyps [of z x y] that by simp
    show "Collate z y \<le> 0 \<Longrightarrow> Collate y x \<le> 0 \<Longrightarrow> Collate z x \<le> 0"
      using less.hyps [of z y x] that by simp
  qed
  have ab: "collationType a \<le> collationType b" using less.prems(1) by (rule Collate_le0_type)
  have bc: "collationType b \<le> collationType c" using less.prems(2) by (rule Collate_le0_type)
  show ?case
  proof (cases "collationType a = collationType c")
    case False
    with ab bc have "collationType a < collationType c" by simp
    then show ?thesis by (simp add: Collate_types compareOrd_def)
  next
    case True
    with ab bc have eq: "collationType b = collationType a" "collationType c = collationType a" by simp_all
    consider (scalar) "collationType a < 4" | (string) "collationType a = 4"
      | (array) "collationType a = 5" | (object) "collationType a = 6"
      using collationType_le6 [of a] by linarith
    then show ?thesis
    proof cases
      case scalar
      then show ?thesis using less.prems eq
        by (simp add: Collate_scalar compareOrd_le0)
    next
      case string
      then obtain s t u where "a = String s" "b = String t" "c = String u"
        using eq by (auto simp: collationType_cases)
      then show ?thesis using less.prems compareString_trans [of s t u]
        by (simp add: Collate_String)
    next
      case array
      then obtain xs rx ys ry zs rz where s: "a = Array xs rx" "b = Array ys ry" "c = Array zs rz"
        using eq by (auto simp: collationType_cases)
      have "collateSeq Collate xs zs \<le> 0"
      proof (rule collateSeq_trans [of Collate xs ys zs, OF Collate_flip])
        fix x y z assume "x \<in> set xs" "y \<in> set ys" "z \<in> set zs"
        then have "size x + size y + size z < size a + size b + size c"
          using size_elem_less [of x xs] size_elem_less [of y ys] size_elem_less [of z zs] s by simp
        then show "trans6 Collate x y z" by (rule IH)
      qed (use less.prems s in \<open>simp_all add: Collate_Array\<close>)
      then show ?thesis using s by (simp add: Collate_Array)
    next
      case object
      then obtain es fs gs where s: "a = Object es" "b = Object fs" "c = Object gs"
        using eq by (auto simp: collationType_cases)
      have "collateSeq (collateEntry Collate) (sortEntries es) (sortEntries gs) \<le> 0"
      proof (rule collateSeq_trans [of "collateEntry Collate" _ "sortEntries fs"])
        show "collateEntry Collate f e = - collateEntry Collate e f" for e f
          by (rule collateEntry_flip) (rule Collate_flip)
        fix e f g
        assume "e \<in> set (sortEntries es)" "f \<in> set (sortEntries fs)" "g \<in> set (sortEntries gs)"
        then have "(fst e, snd e) \<in> set es" "(fst f, snd f) \<in> set fs" "(fst g, snd g) \<in> set gs"
          by (simp_all add: set_sortEntries)
        then have "size (snd e) + size (snd f) + size (snd g) < size a + size b + size c"
          using size_entry_less [of "fst e" "snd e" es] size_entry_less [of "fst f" "snd f" fs]
            size_entry_less [of "fst g" "snd g" gs] s by simp
        then have "trans6 Collate (snd e) (snd f) (snd g)" by (rule IH)
        then show "trans6 (collateEntry Collate) e f g"
          unfolding trans6_def by (intro conjI collateEntry_trans3 Collate_flip) simp_all
      qed (use less.prems s in \<open>simp_all add: Collate_Object\<close>)
      then show ?thesis using s by (simp add: Collate_Object)
    qed
  qed
qed

lemma Collate_laws: "collatorLaws Collate"
  unfolding collatorLaws_def
proof (intro conjI allI impI)
  fix a b show "(0 \<le> Collate a b) = (Collate b a \<le> 0)"
    using Collate_flip [of b a] by simp
next
  fix a b c assume "Collate a b \<le> 0" "Collate b c \<le> 0"
  then show "Collate a c \<le> 0" by (rule Collate_trans)
qed

section \<open>Binary search\<close>

text \<open>The search only reads the predicate inside the range, so every row index is in range.\<close>

lemma searchLoop_cong_range:
  "(\<And>h. i \<le> h \<Longrightarrow> h < j \<Longrightarrow> f h = g h) \<Longrightarrow> searchLoop f i j = searchLoop g i j"
proof (induction f i j rule: searchLoop.induct)
  case (1 f i j)
  show ?case
  proof (cases "i < j")
    case True
    define h where "h = (i + j) div 2"
    have hr: "i \<le> h" "h < j" using True by (simp_all add: h_def)
    have fg: "f h = g h" using 1(3) hr by simp
    show ?thesis
    proof (cases "f h")
      case False
      have "searchLoop f (h + 1) j = searchLoop g (h + 1) j"
        using 1(1) [OF True h_def False] 1(3) hr by simp
      then show ?thesis using True False fg
        by (subst searchLoop.simps, subst (2) searchLoop.simps) (simp add: h_def Let_def)
    next
      case isT: True
      have "searchLoop f i h = searchLoop g i h"
        using 1(2) [OF True h_def] isT 1(3) hr by simp
      then show ?thesis using True isT fg
        by (subst searchLoop.simps, subst (2) searchLoop.simps) (simp add: h_def Let_def)
    qed
  next
    case False
    then show ?thesis by (subst searchLoop.simps, subst (2) searchLoop.simps) simp
  qed
qed

lemma searchLoop_partition:
  "i \<le> k \<Longrightarrow> k \<le> j \<Longrightarrow> (\<And>h. i \<le> h \<Longrightarrow> h < k \<Longrightarrow> \<not> f h) \<Longrightarrow> (\<And>h. k \<le> h \<Longrightarrow> h < j \<Longrightarrow> f h)
   \<Longrightarrow> searchLoop f i j = k"
proof (induction f i j rule: searchLoop.induct)
  case (1 f i j)
  show ?case
  proof (cases "i < j")
    case True
    define h where "h = (i + j) div 2"
    have hr: "i \<le> h" "h < j" using True by (simp_all add: h_def)
    show ?thesis
    proof (cases "f h")
      case False
      then have kh: "h + 1 \<le> k" using 1(6) [of h] hr by (cases "k \<le> h") auto
      have "searchLoop f (h + 1) j = k"
        using 1(1) [OF True h_def False kh 1(4)] 1(5) 1(6) hr by simp
      then show ?thesis using True False
        by (subst searchLoop.simps) (simp add: h_def Let_def)
    next
      case isT: True
      then have kh: "k \<le> h" using 1(5) [of h] hr by (cases "k \<le> h") auto
      have "searchLoop f i h = k"
        using 1(2) [OF True h_def _ 1(3) kh] isT 1(5) 1(6) hr by simp
      then show ?thesis using True isT
        by (subst searchLoop.simps) (simp add: h_def Let_def)
    qed
  next
    case False
    then show ?thesis using 1(3,4) by (subst searchLoop.simps) simp
  qed
qed

lemma Search_split:
  assumes "\<forall>x\<in>set as. \<not> P x" "\<forall>x\<in>set bs. P x"
  shows "Search (length (as @ bs)) (\<lambda>i. P ((as @ bs) ! i)) = length as"
  unfolding Search_def
proof (rule searchLoop_partition)
  fix h assume "0 \<le> h" "h < length as"
  then show "\<not> P ((as @ bs) ! h)" using assms(1) by (simp add: nth_append)
next
  fix h assume "length as \<le> h" "h < length (as @ bs)"
  then have "(as @ bs) ! h \<in> set bs" by (simp add: nth_append)
  then show "P ((as @ bs) ! h)" using assms(2) by simp
qed simp_all

lemma dropWhile_monotone:
  assumes "\<And>a b. R a b \<Longrightarrow> P a \<Longrightarrow> P b"
  shows "sorted_wrt R xs \<Longrightarrow> x \<in> set (dropWhile (\<lambda>x. \<not> P x) xs) \<Longrightarrow> P x"
proof (induction xs)
  case Nil
  then show ?case by simp
next
  case (Cons a xs)
  show ?case
  proof (cases "P a")
    case True
    then show ?thesis using Cons.prems assms by auto
  next
    case False
    then show ?thesis using Cons by simp
  qed
qed

lemma Search_monotone:
  assumes "sorted_wrt R xs" "\<And>a b. R a b \<Longrightarrow> P a \<Longrightarrow> P b"
  shows "Search (length xs) (\<lambda>i. P (xs ! i)) = firstIndex P xs"
proof -
  define as where "as = takeWhile (\<lambda>x. \<not> P x) xs"
  define bs where "bs = dropWhile (\<lambda>x. \<not> P x) xs"
  have xs: "xs = as @ bs" by (simp add: as_def bs_def)
  have a: "\<forall>x\<in>set as. \<not> P x" unfolding as_def by (auto dest: set_takeWhileD)
  have b: "\<forall>x\<in>set bs. P x" unfolding bs_def using dropWhile_monotone [of R P xs] assms by blast
  have "Search (length (as @ bs)) (\<lambda>i. P ((as @ bs) ! i)) = length as"
    using a b by (rule Search_split)
  then show ?thesis unfolding xs [symmetric] by (simp add: firstIndex_def as_def)
qed

section \<open>Range selection on sorted rows\<close>

lemma collatorLaws_ge_mono:
  assumes "collatorLaws coll" "coll a b \<le> 0" "0 \<le> coll a k"
  shows "0 \<le> coll b k"
proof -
  have "coll k a \<le> 0" using assms(1,3) by (simp add: collatorLaws_def)
  then have "coll k b \<le> 0" using assms(1,2) unfolding collatorLaws_def by blast
  then show ?thesis using assms(1) by (simp add: collatorLaws_def)
qed

lemma collatorLaws_gt_mono:
  assumes "collatorLaws coll" "coll a b \<le> 0" "0 < coll a k"
  shows "0 < coll b k"
proof (rule ccontr)
  assume "\<not> 0 < coll b k"
  then have "coll b k \<le> 0" by simp
  then have "coll a k \<le> 0" using assms(1,2) unfolding collatorLaws_def by blast
  then show False using assms(3) by simp
qed


lemma trimStart_sorted:
  assumes "collatorLaws coll" "sortedRows coll rows"
  shows "trimStart coll startkey rows = startTrimSpec coll startkey rows"
proof (cases "startkey = Null")
  case True
  then show ?thesis by (simp add: trimStart_def startTrimSpec_def)
next
  case False
  have "Search (length rows) (\<lambda>i. 0 \<le> coll (Key (rows ! i)) startkey)
        = firstIndex (\<lambda>r. 0 \<le> coll (Key r) startkey) rows"
    using assms(2) unfolding sortedRows_def
    by (rule Search_monotone) (rule collatorLaws_ge_mono [OF assms(1)])
  with False show ?thesis by (simp add: trimStart_def startTrimSpec_def)
qed

lemma trimEnd_sorted:
  assumes "collatorLaws coll" "sortedRows coll rows"
  shows "trimEnd coll endkey inclusiveEnd rows = endTrimSpec coll endkey inclusiveEnd rows"
proof (cases "endkey = Null")
  case True
  then show ?thesis by (simp add: trimEnd_def endTrimSpec_def)
next
  case False
  show ?thesis
  proof (cases inclusiveEnd)
    case True
    have "Search (length rows) (\<lambda>i. 0 < coll (Key (rows ! i)) endkey)
          = firstIndex (\<lambda>r. 0 < coll (Key r) endkey) rows"
      using assms(2) unfolding sortedRows_def
      by (rule Search_monotone) (rule collatorLaws_gt_mono [OF assms(1)])
    with False True show ?thesis by (simp add: trimEnd_def endTrimSpec_def)
  next
    case incl: False
    have "Search (length rows) (\<lambda>i. 0 \<le> coll (Key (rows ! i)) endkey)
          = firstIndex (\<lambda>r. 0 \<le> coll (Key r) endkey) rows"
      using assms(2) unfolding sortedRows_def
      by (rule Search_monotone) (rule collatorLaws_ge_mono [OF assms(1)])
    moreover have "(- 1 < (x::int)) = (0 \<le> x)" for x by auto
    ultimately show ?thesis using False incl by (simp add: trimEnd_def endTrimSpec_def)
  qed
qed

lemma applyLimit_limitSpec: "applyLimit limit rows = limitSpec limit rows"
  by (auto simp: applyLimit_def limitSpec_def)

lemma sortedRows_drop: "sortedRows coll rows \<Longrightarrow> sortedRows coll (drop n rows)"
  by (simp add: sortedRows_def sorted_wrt_drop)

lemma sortedRows_take: "sortedRows coll rows \<Longrightarrow> sortedRows coll (take n rows)"
  by (simp add: sortedRows_def sorted_wrt_take)

lemma sortedRows_startTrimSpec: "sortedRows coll rows \<Longrightarrow> sortedRows coll (startTrimSpec coll k rows)"
  by (simp add: startTrimSpec_def sortedRows_drop)

lemma sortedRows_limitSpec: "sortedRows coll rows \<Longrightarrow> sortedRows coll (limitSpec n rows)"
  by (simp add: limitSpec_def sortedRows_take)

text \<open>The pipeline up to the document stage, when neither documents nor a reduction are asked for.\<close>

lemma ProcessViewResult_plain:
  assumes "\<not> reverseOf ps" "\<not> includeDocsOf ps" "\<not> (reduceOf ps \<and> reduceFunction \<noteq> [])"
    and "boundaries ps = (startkey, endkey, inclusiveEnd)"
    and "R = trimEnd coll endkey inclusiveEnd (applyLimit (limitOf ps) (trimStart coll startkey (Rows result)))"
  shows "ProcessViewResult coll num unmarshal result ps bucket reduceFunction
         = Inr (\<lparr>TotalRows = int (length R), Rows = R\<rparr>, None)"
  using assms by (auto simp: ProcessViewResult_def Let_def)

lemma range_sorted:
  assumes "collatorLaws coll" "sortedRows coll rows"
  shows "trimEnd coll endkey inclusiveEnd (applyLimit limit (trimStart coll startkey rows))
         = endTrimSpec coll endkey inclusiveEnd (limitSpec limit (startTrimSpec coll startkey rows))"
  using assms
  by (simp add: trimStart_sorted applyLimit_limitSpec trimEnd_sorted sortedRows_startTrimSpec
      sortedRows_limitSpec)

section \<open>Rejected requests\<close>

text \<open>
  C6: whenever the \<open>reverse\<close> parameter is the boolean true, \<open>ProcessViewResult\<close> returns the
  unsupported-operation error together with the result it was given, unchanged: no row is
  trimmed, no document is fetched and nothing is reduced.
\<close>

theorem C6_reverse_rejected:
  assumes "param ps ''reverse'' = Bool True"
  shows "ProcessViewResult coll num unmarshal result ps bucket reduceFunction
         = Inr (result, Some ReverseNotSupported)"
  using assms by (simp add: ProcessViewResult_def reverseOf_def)

theorem C6_reverse_rejected_witness:
  "param ([''reverse'' \<mapsto> Bool True, ''startkey'' \<mapsto> Float64 2, ''include_docs'' \<mapsto> Bool True]
            :: real params)
     ''reverse'' = Bool True
   \<and> ProcessViewResult Collate exactArith noUnmarshal
       \<lparr>TotalRows = 7, Rows = keyedRows [Float64 1, Float64 2, Float64 3]\<rparr>
       [''reverse'' \<mapsto> Bool True, ''startkey'' \<mapsto> Float64 2, ''include_docs'' \<mapsto> Bool True]
       noBucket ''_count''
     = Inr (\<lparr>TotalRows = 7, Rows = keyedRows [Float64 1, Float64 2, Float64 3]\<rparr>,
            Some ReverseNotSupported)"
proof -
  have h: "param ([''reverse'' \<mapsto> Bool True, ''startkey'' \<mapsto> Float64 2, ''include_docs'' \<mapsto> Bool True]
            :: real params)
     ''reverse'' = Bool True"
    by (simp add: param_def)
  show ?thesis using h C6_reverse_rejected [OF h] by simp
qed

text \<open>
  C7: for every reduce-function name other than \<open>_count\<close> and \<open>_sum\<close>, the reduce stage
  returns the unsupported-reduce-function error and leaves the result, and so its rows, as
  they were: the name is looked up before the grouping parameters are read and before any
  row is touched.
\<close>

theorem C7_unknown_reduce_function:
  assumes "reduceFunction \<noteq> ''_count''" "reduceFunction \<noteq> ''_sum''"
  shows "ReduceViewResult coll num reduceFunction ps result = Inr (result, Some UnsupportedReduceFunction)"
  using assms by (simp add: ReduceViewResult_def ReduceFunc_def)

theorem C7_unknown_reduce_function_witness:
  "''_stats'' \<noteq> ''_count'' \<and> ''_stats'' \<noteq> ''_sum''
   \<and> ReduceViewResult Collate exactArith ''_stats'' [''group'' \<mapsto> String ''yes'']
       \<lparr>TotalRows = 2, Rows = keyedRows [Float64 1, Float64 2]\<rparr>
     = Inr (\<lparr>TotalRows = 2, Rows = keyedRows [Float64 1, Float64 2]\<rparr>,
            Some UnsupportedReduceFunction)"
proof -
  have h1: "''_stats'' \<noteq> ''_count''" and h2: "''_stats'' \<noteq> ''_sum''" by simp_all
  show ?thesis using h1 h2 C7_unknown_reduce_function [OF h1 h2] by simp
qed

section \<open>Key ranges\<close>

lemma startTrimSpec_dropWhile:
  "startkey \<noteq> Null \<Longrightarrow> startTrimSpec coll startkey rows = dropWhile (\<lambda>r. \<not> 0 \<le> coll (Key r) startkey) rows"
  by (simp add: startTrimSpec_def firstIndex_def dropWhile_eq_drop)

lemma endTrimSpec_takeWhile:
  "endkey \<noteq> Null \<Longrightarrow> endTrimSpec coll endkey True rows = takeWhile (\<lambda>r. \<not> 0 < coll (Key r) endkey) rows"
  by (simp add: endTrimSpec_def firstIndex_def takeWhile_eq_take [symmetric])

lemma equality_range:
  fixes coll :: "'f collator"
  assumes laws: "collatorLaws coll" and sorted: "sortedRows coll rows" and key: "key \<noteq> Null"
  shows "endTrimSpec coll key True (startTrimSpec coll key rows) = filter (\<lambda>r. coll (Key r) key = 0) rows"
proof -
  define P1 where "P1 = (\<lambda>r::'f ViewRow. 0 \<le> coll (Key r) key)"
  define P2 where "P2 = (\<lambda>r::'f ViewRow. 0 < coll (Key r) key)"
  define E where "E = (\<lambda>r::'f ViewRow. coll (Key r) key = 0)"
  define A where "A = takeWhile (\<lambda>r. \<not> P1 r) rows"
  define B where "B = dropWhile (\<lambda>r. \<not> P1 r) rows"
  define C where "C = takeWhile (\<lambda>r. \<not> P2 r) B"
  define D where "D = dropWhile (\<lambda>r. \<not> P2 r) B"
  have rows: "rows = A @ C @ D" by (simp add: A_def B_def C_def D_def)
  have sortedB: "sorted_wrt (\<lambda>a b. coll (Key a) (Key b) \<le> 0) B"
    using sorted unfolding B_def sortedRows_def dropWhile_eq_drop by (rule sorted_wrt_drop)
  have B: "\<forall>r\<in>set B. P1 r"
    using dropWhile_monotone [of "\<lambda>a b. coll (Key a) (Key b) \<le> 0" P1 rows] sorted
      collatorLaws_ge_mono [OF laws]
    unfolding B_def P1_def sortedRows_def by blast
  have A: "\<forall>r\<in>set A. \<not> E r"
    unfolding A_def E_def P1_def by (auto dest: set_takeWhileD)
  have "\<forall>r\<in>set C. P1 r \<and> \<not> P2 r"
    using B unfolding C_def by (auto dest: set_takeWhileD)
  then have C: "\<forall>r\<in>set C. E r"
    unfolding P1_def P2_def E_def by auto
  have "\<forall>r\<in>set D. P2 r"
    using dropWhile_monotone [of "\<lambda>a b. coll (Key a) (Key b) \<le> 0" P2 B] sortedB
      collatorLaws_gt_mono [OF laws]
    unfolding D_def P2_def by blast
  then have D: "\<forall>r\<in>set D. \<not> E r"
    unfolding P2_def E_def by auto
  have "filter E rows = C"
    using A C D unfolding rows by (simp add: filter_empty_conv filter_id_conv)
  moreover have "endTrimSpec coll key True (startTrimSpec coll key rows) = C"
    using key by (simp add: startTrimSpec_dropWhile endTrimSpec_takeWhile B_def C_def P1_def P2_def)
  ultimately show ?thesis by (simp add: E_def)
qed

lemma boundaries_key:
  "param ps ''key'' \<noteq> Null \<Longrightarrow> boundaries ps = (param ps ''key'', param ps ''key'', True)"
  by (simp add: boundaries_def Let_def)

lemma sortedRows_numbers:
  "sortedRows Collate (keyedRows [Float64 1, Float64 2, Float64 3, Float64 4, Float64 5])"
  by (simp add: sortedRows_def keyedRows_def Collate_scalar compareOrd_def)

lemmas evalParams = reverseOf_def includeDocsOf_def limitOf_def reduceOf_def param_def boundaries_def

lemmas evalRange = trimStart_def trimEnd_def applyLimit_def Search_def searchLoop.simps
  Collate_scalar compareOrd_def

lemma example_range_2_4:
  "ProcessViewResult Collate num unmarshal
     \<lparr>TotalRows = 5, Rows = keyedRows [Float64 1, Float64 2, Float64 3, Float64 4, Float64 5]\<rparr>
     [''startkey'' \<mapsto> Float64 2, ''endkey'' \<mapsto> Float64 4] bucket []
   = Inr (\<lparr>TotalRows = 3, Rows = keyedRows [Float64 2, Float64 3, Float64 4]\<rparr>, None)"
  by (simp add: ProcessViewResult_def evalParams evalRange keyedRows_def)

lemma example_range_2_4_exclusive:
  "ProcessViewResult Collate num unmarshal
     \<lparr>TotalRows = 5, Rows = keyedRows [Float64 1, Float64 2, Float64 3, Float64 4, Float64 5]\<rparr>
     [''startkey'' \<mapsto> Float64 2, ''endkey'' \<mapsto> Float64 4, ''inclusive_end'' \<mapsto> Bool False] bucket []
   = Inr (\<lparr>TotalRows = 2, Rows = keyedRows [Float64 2, Float64 3]\<rparr>, None)"
  by (simp add: ProcessViewResult_def evalParams evalRange keyedRows_def)

text \<open>
  C2: on rows sorted under a lawful collator, with no limit, the rows that
  \<open>ProcessViewResult\<close> keeps are the contiguous range picked by the boundaries: with a
  startkey, everything before the first row that collates at least startkey is dropped;
  with an endkey, the rows are cut at the first row that collates strictly greater than
  endkey when the end is inclusive, and at least endkey when it is not. Without a \<open>key\<close>
  and without an \<open>inclusive_end\<close> parameter the end is inclusive. On the keys 1 to 5 with
  startkey 2 and endkey 4 the keys 2, 3, 4 remain, and 2, 3 when \<open>inclusive_end\<close> is
  false.
\<close>

theorem C2_range_selection:
  assumes "collatorLaws coll" and "sortedRows coll (Rows result)"
    and "\<not> reverseOf ps" and "\<not> includeDocsOf ps" and "\<not> (reduceOf ps \<and> reduceFunction \<noteq> [])"
    and "limitOf ps \<le> 0"
    and "boundaries ps = (startkey, endkey, inclusiveEnd)"
  shows "ProcessViewResult coll num unmarshal result ps bucket reduceFunction
           = Inr (\<lparr>TotalRows = int (length (endTrimSpec coll endkey inclusiveEnd
                                                (startTrimSpec coll startkey (Rows result)))),
                   Rows = endTrimSpec coll endkey inclusiveEnd
                            (startTrimSpec coll startkey (Rows result))\<rparr>, None)
         \<and> snd (snd (boundaries (ps(''key'' := None, ''inclusive_end'' := None))))
         \<and> ProcessViewResult Collate exactArith unmarshal'
              \<lparr>TotalRows = 5, Rows = keyedRows [Float64 1, Float64 2, Float64 3, Float64 4, Float64 5]\<rparr>
              [''startkey'' \<mapsto> Float64 2, ''endkey'' \<mapsto> Float64 4] bucket []
             = Inr (\<lparr>TotalRows = 3, Rows = keyedRows [Float64 2, Float64 3, Float64 4]\<rparr>, None)
         \<and> ProcessViewResult Collate exactArith unmarshal'
              \<lparr>TotalRows = 5, Rows = keyedRows [Float64 1, Float64 2, Float64 3, Float64 4, Float64 5]\<rparr>
              [''startkey'' \<mapsto> Float64 2, ''endkey'' \<mapsto> Float64 4, ''inclusive_end'' \<mapsto> Bool False]
              bucket []
             = Inr (\<lparr>TotalRows = 2, Rows = keyedRows [Float64 2, Float64 3]\<rparr>, None)"
proof -
  have "limitSpec (limitOf ps) (startTrimSpec coll startkey (Rows result))
        = startTrimSpec coll startkey (Rows result)"
    using assms(6) by (simp add: limitSpec_def)
  then have "trimEnd coll endkey inclusiveEnd
               (applyLimit (limitOf ps) (trimStart coll startkey (Rows result)))
             = endTrimSpec coll endkey inclusiveEnd (startTrimSpec coll startkey (Rows result))"
    using range_sorted [OF assms(1,2)] by simp
  then have "ProcessViewResult coll num unmarshal result ps bucket reduceFunction
           = Inr (\<lparr>TotalRows = int (length (endTrimSpec coll endkey inclusiveEnd
                                                (startTrimSpec coll startkey (Rows result)))),
                   Rows = endTrimSpec coll endkey inclusiveEnd
                            (startTrimSpec coll startkey (Rows result))\<rparr>, None)"
    using ProcessViewResult_plain [OF assms(3,4,5,7)] by simp
  moreover have "snd (snd (boundaries (ps(''key'' := None, ''inclusive_end'' := None))))"
    by (simp add: boundaries_def param_def Let_def)
  ultimately show ?thesis
    using example_range_2_4 example_range_2_4_exclusive by blast
qed

theorem C2_range_selection_witness:
  "collatorLaws Collate
   \<and> sortedRows Collate (keyedRows [Float64 1, Float64 2, Float64 3, Float64 4, Float64 5])
   \<and> boundaries ([''start_key'' \<mapsto> Float64 2, ''end_key'' \<mapsto> Float64 4,
         ''inclusive_end'' \<mapsto> Bool False, ''reduce'' \<mapsto> Bool False] :: real params)
       = (Float64 2, Float64 4, False)
   \<and> ProcessViewResult Collate exactArith noUnmarshal
       \<lparr>TotalRows = 5, Rows = keyedRows [Float64 1, Float64 2, Float64 3, Float64 4, Float64 5]\<rparr>
       [''start_key'' \<mapsto> Float64 2, ''end_key'' \<mapsto> Float64 4, ''inclusive_end'' \<mapsto> Bool False,
        ''reduce'' \<mapsto> Bool False]
       noBucket ''_count''
     = Inr (\<lparr>TotalRows = 2, Rows = keyedRows [Float64 2, Float64 3]\<rparr>, None)"
proof -
  let ?ps = "[''start_key'' \<mapsto> Float64 2, ''end_key'' \<mapsto> Float64 4, ''inclusive_end'' \<mapsto> Bool False,
    ''reduce'' \<mapsto> Bool False] :: real params"
  let ?res = "\<lparr>TotalRows = 5, Rows = keyedRows [Float64 1, Float64 2, Float64 3, Float64 4, Float64 5]\<rparr>"
  have h1: "sortedRows Collate (Rows ?res)" using sortedRows_numbers by simp
  have h2: "\<not> reverseOf ?ps" by (simp add: evalParams)
  have h3: "\<not> includeDocsOf ?ps" by (simp add: evalParams)
  have h4: "\<not> (reduceOf ?ps \<and> ''_count'' \<noteq> [])" by (simp add: evalParams)
  have h5: "limitOf ?ps \<le> 0" by (simp add: evalParams)
  have h6: "boundaries ?ps = (Float64 2, Float64 4, False)" by (simp add: evalParams)
  show ?thesis
    using C2_range_selection [where num = exactArith and unmarshal = noUnmarshal
        and bucket = noBucket, OF Collate_laws h1 h2 h3 h4 h5 h6]
      Collate_laws sortedRows_numbers h6
    by (simp add: endTrimSpec_def startTrimSpec_def firstIndex_def keyedRows_def Collate_scalar compareOrd_def)
qed

section \<open>The limit\<close>

lemma limitSpec_unlimited: "limit \<le> 0 \<Longrightarrow> limitSpec limit rows = rows"
  by (simp add: limitSpec_def)

lemma example_limit_any_endkey:
  "ProcessViewResult Collate num unmarshal
     \<lparr>TotalRows = 5, Rows = keyedRows [Float64 1, Float64 2, Float64 3, Float64 4, Float64 5]\<rparr>
     [''limit'' \<mapsto> Uint64 1, ''startkey'' \<mapsto> Float64 2, ''endkey'' \<mapsto> endkey] bucket []
   = (if endkey = Null \<or> Collate (Float64 2) endkey \<le> 0
      then Inr (\<lparr>TotalRows = 1, Rows = keyedRows [Float64 2]\<rparr>, None)
      else Inr (\<lparr>TotalRows = 0, Rows = []\<rparr>, None))"
proof -
  have s: "trimStart Collate (Float64 2) (keyedRows [Float64 1, Float64 2, Float64 3, Float64 4, Float64 5])
           = keyedRows [Float64 2, Float64 3, Float64 4, Float64 5]"
    by (simp add: evalRange keyedRows_def)
  have l: "applyLimit 1 (keyedRows [Float64 2, Float64 3, Float64 4, Float64 5]) = keyedRows [Float64 2]"
    by (simp add: applyLimit_def keyedRows_def)
  have e: "trimEnd Collate endkey True (keyedRows [Float64 2])
           = (if endkey = Null \<or> Collate (Float64 2) endkey \<le> 0 then keyedRows [Float64 2] else [])"
    by (simp add: trimEnd_def Search_def searchLoop.simps keyedRows_def)
  have b: "boundaries [''limit'' \<mapsto> Uint64 1, ''startkey'' \<mapsto> Float64 2, ''endkey'' \<mapsto> endkey]
           = (Float64 2, endkey, True)"
    by (cases "endkey = Null") (simp_all add: evalParams)
  have n: "length (keyedRows [Float64 2]) = 1" by (simp add: keyedRows_def)
  show ?thesis
    by (simp add: ProcessViewResult_def b s l e n reverseOf_def includeDocsOf_def limitOf_def
        reduceOf_def param_def)
qed

text \<open>
  C3, as the spec states it, fails: with the keys 1 to 5, limit 1 and startkey 2, the
  endkey 1 leaves no row at all, since the end trim runs on the one row that the limit
  kept.
\<close>

theorem C3_limit_counterexample:
  "ProcessViewResult Collate exactArith noUnmarshal
     \<lparr>TotalRows = 5, Rows = keyedRows [Float64 1, Float64 2, Float64 3, Float64 4, Float64 5]\<rparr>
     [''limit'' \<mapsto> Uint64 1, ''startkey'' \<mapsto> Float64 2, ''endkey'' \<mapsto> Float64 1] noBucket []
   = Inr (\<lparr>TotalRows = 0, Rows = []\<rparr>, None)
   \<and> ([] :: real ViewRow list) \<noteq> keyedRows [Float64 2]"
proof
  show "ProcessViewResult Collate exactArith noUnmarshal
     \<lparr>TotalRows = 5, Rows = keyedRows [Float64 1, Float64 2, Float64 3, Float64 4, Float64 5]\<rparr>
     [''limit'' \<mapsto> Uint64 1, ''startkey'' \<mapsto> Float64 2, ''endkey'' \<mapsto> Float64 1] noBucket []
   = Inr (\<lparr>TotalRows = 0, Rows = []\<rparr>, None)"
    by (simp add: example_limit_any_endkey Collate_scalar compareOrd_def)
  show "([] :: real ViewRow list) \<noteq> keyedRows [Float64 2]"
    by (simp add: keyedRows_def)
qed

lemma example_limit_before_end:
  "ProcessViewResult Collate num unmarshal
     \<lparr>TotalRows = 4, Rows = keyedRows [Float64 1, Float64 3, Float64 1, Float64 1]\<rparr>
     [''limit'' \<mapsto> Uint64 2, ''endkey'' \<mapsto> Float64 2] bucket []
   = Inr (\<lparr>TotalRows = 1, Rows = keyedRows [Float64 1]\<rparr>, None)"
  "applyLimit 2 (trimEnd Collate (Float64 2) True
                   (keyedRows [Float64 1, Float64 3, Float64 1, Float64 1]))
   = keyedRows [Float64 1, Float64 3]"
  by (simp_all add: ProcessViewResult_def evalParams evalRange keyedRows_def Let_def)

text \<open>
  C3, amended: for every input, the rows that \<open>ProcessViewResult\<close> keeps are the end trim
  of the limit truncation of the start trim of the rows, each trim being the binary
  search of the code; the truncation keeps the first \<open>limit\<close> rows when \<open>limit > 0\<close> and
  all rows otherwise, so that a limit of 0, or none, truncates nothing. On rows sorted
  under a lawful collator the two trims are the ones of the spec. The order of the stages
  shows on the unsorted keys 1, 3, 1, 1 with limit 2 and endkey 2: the result is the row
  with key 1, where the limit after the end trim would give the keys 1, 3. With the keys
  1 to 5, limit 1 and startkey 2, the result is the row with key 2 for every endkey that
  is absent or collates at least 2, and no row for every other endkey.
\<close>

theorem C3_limit_between_trims:
  assumes "\<not> reverseOf ps" and "\<not> includeDocsOf ps" and "\<not> (reduceOf ps \<and> reduceFunction \<noteq> [])"
    and "boundaries ps = (startkey, endkey, inclusiveEnd)"
  shows "ProcessViewResult coll num unmarshal result ps bucket reduceFunction
           = Inr (\<lparr>TotalRows = int (length (trimEnd coll endkey inclusiveEnd
                      (applyLimit (limitOf ps) (trimStart coll startkey (Rows result))))),
                   Rows = trimEnd coll endkey inclusiveEnd
                            (applyLimit (limitOf ps) (trimStart coll startkey (Rows result)))\<rparr>,
                  None)
         \<and> applyLimit (limitOf ps) (trimStart coll startkey (Rows result))
             = (if 0 < limitOf ps
                then take (nat (limitOf ps)) (trimStart coll startkey (Rows result))
                else trimStart coll startkey (Rows result))
         \<and> (collatorLaws coll \<and> sortedRows coll (Rows result) \<longrightarrow>
              trimEnd coll endkey inclusiveEnd
                (applyLimit (limitOf ps) (trimStart coll startkey (Rows result)))
              = endTrimSpec coll endkey inclusiveEnd
                  (limitSpec (limitOf ps) (startTrimSpec coll startkey (Rows result))))
         \<and> limitOf (ps(''limit'' := None)) = 0 \<and> limitOf (ps(''limit'' \<mapsto> Uint64 0)) = 0
         \<and> applyLimit 0 (Rows result) = Rows result
         \<and> ProcessViewResult Collate exactArith unmarshal'
              \<lparr>TotalRows = 4, Rows = keyedRows [Float64 1, Float64 3, Float64 1, Float64 1]\<rparr>
              [''limit'' \<mapsto> Uint64 2, ''endkey'' \<mapsto> Float64 2] bucket []
             = Inr (\<lparr>TotalRows = 1, Rows = keyedRows [Float64 1]\<rparr>, None)
         \<and> applyLimit 2 (trimEnd Collate (Float64 2) True
                             (keyedRows [Float64 1, Float64 3, Float64 1, Float64 1]))
             = keyedRows [Float64 1, Float64 3]
         \<and> ProcessViewResult Collate exactArith unmarshal'
              \<lparr>TotalRows = 5, Rows = keyedRows [Float64 1, Float64 2, Float64 3, Float64 4, Float64 5]\<rparr>
              [''limit'' \<mapsto> Uint64 1, ''startkey'' \<mapsto> Float64 2, ''endkey'' \<mapsto> anyEndkey] bucket []
             = (if anyEndkey = Null \<or> Collate (Float64 2) anyEndkey \<le> 0
                then Inr (\<lparr>TotalRows = 1, Rows = keyedRows [Float64 2]\<rparr>, None)
                else Inr (\<lparr>TotalRows = 0, Rows = []\<rparr>, None))"
proof -
  have 1: "ProcessViewResult coll num unmarshal result ps bucket reduceFunction
           = Inr (\<lparr>TotalRows = int (length (trimEnd coll endkey inclusiveEnd
                      (applyLimit (limitOf ps) (trimStart coll startkey (Rows result))))),
                   Rows = trimEnd coll endkey inclusiveEnd
                            (applyLimit (limitOf ps) (trimStart coll startkey (Rows result)))\<rparr>,
                  None)"
    using ProcessViewResult_plain [OF assms(1,2,3,4)] by simp
  have 2: "applyLimit (limitOf ps) (trimStart coll startkey (Rows result))
             = (if 0 < limitOf ps
                then take (nat (limitOf ps)) (trimStart coll startkey (Rows result))
                else trimStart coll startkey (Rows result))"
    by (simp add: applyLimit_def)
  have 3: "collatorLaws coll \<and> sortedRows coll (Rows result) \<longrightarrow>
              trimEnd coll endkey inclusiveEnd
                (applyLimit (limitOf ps) (trimStart coll startkey (Rows result)))
              = endTrimSpec coll endkey inclusiveEnd
                  (limitSpec (limitOf ps) (startTrimSpec coll startkey (Rows result)))"
    using range_sorted [of coll "Rows result"] by blast
  have 4: "limitOf (ps(''limit'' := None)) = 0" "limitOf (ps(''limit'' \<mapsto> Uint64 0)) = 0"
    "applyLimit 0 (Rows result) = Rows result"
    by (simp_all add: limitOf_def param_def applyLimit_def)
  show ?thesis
    by (intro conjI 1 2 3 4 example_limit_before_end example_limit_any_endkey)
qed

theorem C3_limit_between_trims_witness:
  "\<not> reverseOf ([''limit'' \<mapsto> Uint64 2, ''startkey'' \<mapsto> Float64 2, ''endkey'' \<mapsto> Float64 5]
                  :: real params)
   \<and> \<not> includeDocsOf ([''limit'' \<mapsto> Uint64 2, ''startkey'' \<mapsto> Float64 2, ''endkey'' \<mapsto> Float64 5]
                         :: real params)
   \<and> boundaries ([''limit'' \<mapsto> Uint64 2, ''startkey'' \<mapsto> Float64 2, ''endkey'' \<mapsto> Float64 5]
                   :: real params)
       = (Float64 2, Float64 5, True)
   \<and> limitOf ([''limit'' \<mapsto> Uint64 2, ''startkey'' \<mapsto> Float64 2, ''endkey'' \<mapsto> Float64 5]
                :: real params) = 2
   \<and> collatorLaws Collate
   \<and> sortedRows Collate (keyedRows [Float64 1, Float64 2, Float64 3, Float64 4, Float64 5])
   \<and> ProcessViewResult Collate exactArith noUnmarshal
       \<lparr>TotalRows = 5, Rows = keyedRows [Float64 1, Float64 2, Float64 3, Float64 4, Float64 5]\<rparr>
       [''limit'' \<mapsto> Uint64 2, ''startkey'' \<mapsto> Float64 2, ''endkey'' \<mapsto> Float64 5]
       noBucket []
     = Inr (\<lparr>TotalRows = 2, Rows = keyedRows [Float64 2, Float64 3]\<rparr>, None)"
proof -
  let ?ps = "[''limit'' \<mapsto> Uint64 2, ''startkey'' \<mapsto> Float64 2, ''endkey'' \<mapsto> Float64 5]
             :: real params"
  let ?res = "\<lparr>TotalRows = 5, Rows = keyedRows [Float64 1, Float64 2, Float64 3, Float64 4, Float64 5]\<rparr>"
  have h1: "sortedRows Collate (Rows ?res)" using sortedRows_numbers by simp
  have h2: "\<not> reverseOf ?ps" by (simp add: evalParams)
  have h3: "\<not> includeDocsOf ?ps" by (simp add: evalParams)
  have h4: "\<not> (reduceOf ?ps \<and> ([]::string) \<noteq> [])" by simp
  have h5: "limitOf ?ps = 2" by (simp add: evalParams)
  have h6: "boundaries ?ps = (Float64 2, Float64 5, True)" by (simp add: evalParams)
  note t = C3_limit_between_trims [where coll = Collate and num = exactArith and result = ?res
        and unmarshal = noUnmarshal and bucket = noBucket and reduceFunction = "[]",
        OF h2 h3 h4 h6]
  have "collatorLaws Collate \<and> sortedRows Collate (Rows ?res) \<longrightarrow>
        trimEnd Collate (Float64 5) True
          (applyLimit (limitOf ?ps) (trimStart Collate (Float64 2) (Rows ?res)))
        = endTrimSpec Collate (Float64 5) True
            (limitSpec (limitOf ?ps) (startTrimSpec Collate (Float64 2) (Rows ?res)))"
    using t [THEN conjunct2, THEN conjunct2, THEN conjunct1] .
  then have "trimEnd Collate (Float64 5) True
          (applyLimit (limitOf ?ps) (trimStart Collate (Float64 2) (Rows ?res)))
        = endTrimSpec Collate (Float64 5) True
            (limitSpec (limitOf ?ps) (startTrimSpec Collate (Float64 2) (Rows ?res)))"
    using Collate_laws h1 by blast
  also have "\<dots> = keyedRows [Float64 2, Float64 3]"
    by (simp add: h5 endTrimSpec_def startTrimSpec_def limitSpec_def firstIndex_def keyedRows_def
        Collate_scalar compareOrd_def)
  finally have k: "trimEnd Collate (Float64 5) True
          (applyLimit (limitOf ?ps) (trimStart Collate (Float64 2) (Rows ?res)))
        = keyedRows [Float64 2, Float64 3]" .
  have n: "length (keyedRows [Float64 2, Float64 3] :: real ViewRow list) = 2"
    by (simp add: keyedRows_def)
  have p: "ProcessViewResult Collate exactArith noUnmarshal ?res ?ps noBucket []
           = Inr (\<lparr>TotalRows = 2, Rows = keyedRows [Float64 2, Float64 3]\<rparr>, None)"
    using t [THEN conjunct1] unfolding k n by simp
  show ?thesis
    using h2 h3 h6 h5 Collate_laws sortedRows_numbers p by (intro conjI)
qed

section \<open>The key parameter\<close>

lemma example_key_3:
  "ProcessViewResult Collate num unmarshal
     \<lparr>TotalRows = 5, Rows = keyedRows [Float64 1, Float64 2, Float64 3, Float64 3, Float64 4]\<rparr>
     [''key'' \<mapsto> Float64 3] bucket []
   = Inr (\<lparr>TotalRows = 2, Rows = keyedRows [Float64 3, Float64 3]\<rparr>, None)"
  by (simp add: ProcessViewResult_def evalParams evalRange keyedRows_def Let_def)

text \<open>
  C4: a \<open>key\<close> parameter replaces both the startkey and the endkey, whatever
  \<open>startkey\<close>, \<open>endkey\<close> and \<open>inclusive_end\<close> say, and the end is inclusive; on rows sorted
  under a lawful collator, with no limit, \<open>ProcessViewResult\<close> then keeps exactly the rows
  whose key collates equal to \<open>key\<close>. On the keys 1, 2, 3, 3, 4 the key 3 selects the two
  rows with key 3.
\<close>

theorem C4_key_equality_range:
  assumes "param ps ''key'' = key" and "key \<noteq> Null"
    and "collatorLaws coll" and "sortedRows coll (Rows result)"
    and "\<not> reverseOf ps" and "\<not> includeDocsOf ps" and "\<not> (reduceOf ps \<and> reduceFunction \<noteq> [])"
    and "limitOf ps \<le> 0"
  shows "boundaries ps = (key, key, True)
         \<and> ProcessViewResult coll num unmarshal result ps bucket reduceFunction
             = Inr (\<lparr>TotalRows = int (length (filter (\<lambda>r. coll (Key r) key = 0) (Rows result))),
                     Rows = filter (\<lambda>r. coll (Key r) key = 0) (Rows result)\<rparr>, None)
         \<and> ProcessViewResult Collate exactArith unmarshal'
              \<lparr>TotalRows = 5, Rows = keyedRows [Float64 1, Float64 2, Float64 3, Float64 3, Float64 4]\<rparr>
              [''key'' \<mapsto> Float64 3] bucket []
             = Inr (\<lparr>TotalRows = 2, Rows = keyedRows [Float64 3, Float64 3]\<rparr>, None)"
proof -
  have b: "boundaries ps = (key, key, True)"
    using boundaries_key [of ps] assms(1,2) by simp
  have "trimEnd coll key True (applyLimit (limitOf ps) (trimStart coll key (Rows result)))
        = filter (\<lambda>r. coll (Key r) key = 0) (Rows result)"
    using range_sorted [OF assms(3,4)] equality_range [OF assms(3,4,2)]
      limitSpec_unlimited [OF assms(8), of "startTrimSpec coll key (Rows result)"] by simp
  then have "ProcessViewResult coll num unmarshal result ps bucket reduceFunction
             = Inr (\<lparr>TotalRows = int (length (filter (\<lambda>r. coll (Key r) key = 0) (Rows result))),
                     Rows = filter (\<lambda>r. coll (Key r) key = 0) (Rows result)\<rparr>, None)"
    using ProcessViewResult_plain [OF assms(5,6,7) b] by simp
  with b show ?thesis using example_key_3 by blast
qed

theorem C4_key_equality_range_witness:
  "param ([''key'' \<mapsto> Float64 3, ''startkey'' \<mapsto> Float64 1, ''endkey'' \<mapsto> Float64 2,
          ''inclusive_end'' \<mapsto> Bool False] :: real params) ''key'' = Float64 3
   \<and> Float64 (3::real) \<noteq> Null
   \<and> collatorLaws Collate
   \<and> sortedRows Collate (keyedRows [Float64 1, Float64 2, Float64 3, Float64 3, Float64 4])
   \<and> boundaries ([''key'' \<mapsto> Float64 3, ''startkey'' \<mapsto> Float64 1, ''endkey'' \<mapsto> Float64 2,
          ''inclusive_end'' \<mapsto> Bool False] :: real params) = (Float64 3, Float64 3, True)
   \<and> ProcessViewResult Collate exactArith noUnmarshal
       \<lparr>TotalRows = 5, Rows = keyedRows [Float64 1, Float64 2, Float64 3, Float64 3, Float64 4]\<rparr>
       [''key'' \<mapsto> Float64 3, ''startkey'' \<mapsto> Float64 1, ''endkey'' \<mapsto> Float64 2,
        ''inclusive_end'' \<mapsto> Bool False] noBucket []
     = Inr (\<lparr>TotalRows = 2, Rows = keyedRows [Float64 3, Float64 3]\<rparr>, None)"
proof -
  let ?ps = "[''key'' \<mapsto> Float64 3, ''startkey'' \<mapsto> Float64 1, ''endkey'' \<mapsto> Float64 2,
          ''inclusive_end'' \<mapsto> Bool False] :: real params"
  let ?res = "\<lparr>TotalRows = 5, Rows = keyedRows [Float64 1, Float64 2, Float64 3, Float64 3, Float64 4]\<rparr>"
  have h1: "param ?ps ''key'' = Float64 3" by (simp add: param_def)
  have h2: "Float64 (3::real) \<noteq> Null" by simp
  have h3: "sortedRows Collate (Rows ?res)"
    by (simp add: sortedRows_def keyedRows_def Collate_scalar compareOrd_def)
  have h4: "\<not> reverseOf ?ps" by (simp add: evalParams)
  have h5: "\<not> includeDocsOf ?ps" by (simp add: evalParams)
  have h6: "\<not> (reduceOf ?ps \<and> ([]::string) \<noteq> [])" by simp
  have h7: "limitOf ?ps \<le> 0" by (simp add: evalParams)
  show ?thesis
    using C4_key_equality_range [where num = exactArith and unmarshal = noUnmarshal
        and bucket = noBucket, OF h1 h2 Collate_laws h3 h4 h5 h6 h7]
      Collate_laws h1 h3
    by (simp add: keyedRows_def Collate_scalar compareOrd_def)
qed

section \<open>Reduction without grouping\<close>

lemma foldl_sumFrom:
  "foldl (\<lambda>total row. plus64 num total (g row)) a rows = sumFrom num a (map g rows)"
  by (induction rows arbitrary: a) simp_all

lemma ReduceFunc_known:
  assumes "reduceFunction = ''_count'' \<or> reduceFunction = ''_sum''"
  shows "ReduceFunc num reduceFunction = Inr (\<lambda>rows. (reduceSpec num reduceFunction rows, None))"
  using assms
  by (auto simp: ReduceFunc_def reduceSpec_def newViewRow_def foldl_sumFrom Let_def)

lemma ReduceFunc_unknown:
  "reduceFunction \<noteq> ''_count'' \<Longrightarrow> reduceFunction \<noteq> ''_sum''
   \<Longrightarrow> ReduceFunc num reduceFunction = Inl UnsupportedReduceFunction"
  by (simp add: ReduceFunc_def)

lemma groupLevelOf_none:
  "param ps ''group'' = Null \<Longrightarrow> param ps ''group_level'' = Null \<Longrightarrow> groupLevelOf ps = Inr 0"
  by (simp add: groupLevelOf_def)

lemma ReduceViewResult_ungrouped:
  assumes "reduceFunction = ''_count'' \<or> reduceFunction = ''_sum''" and "groupLevelOf ps = Inr 0"
  shows "ReduceViewResult coll num reduceFunction ps result
         = Inr (result\<lparr>Rows := [reduceSpec num reduceFunction (Rows result)]\<rparr>, None)"
  using assms(2) by (simp add: ReduceViewResult_def ReduceFunc_known [OF assms(1)])

lemma example_sum_1_2_3:
  "ProcessViewResult coll exactArith unmarshal
     \<lparr>TotalRows = 3, Rows = valuedRows [Float64 1, Float64 2, Float64 3]\<rparr> Map.empty bucket ''_sum''
   = Inr (\<lparr>TotalRows = 1, Rows = [\<lparr>ID = [], Key = Null, Value = Float64 6, Doc = None\<rparr>]\<rparr>, None)"
proof -
  have "ReduceViewResult coll exactArith ''_sum'' Map.empty
          \<lparr>TotalRows = 3, Rows = valuedRows [Float64 1, Float64 2, Float64 3]\<rparr>
        = Inr (\<lparr>TotalRows = 3, Rows = [\<lparr>ID = [], Key = Null, Value = Float64 6, Doc = None\<rparr>]\<rparr>, None)"
    by (simp add: ReduceViewResult_ungrouped groupLevelOf_none param_def reduceSpec_def
        valuedRows_def exactArith_def)
  then show ?thesis
    by (simp add: ProcessViewResult_def evalParams evalRange Let_def)
qed

text \<open>
  C5: with the reduce function \<open>_count\<close> or \<open>_sum\<close> and neither \<open>group\<close> nor \<open>group_level\<close>
  given, the reduce stage replaces the rows, whatever they are and also when there are
  none, by the single row that the reduce function returns for the whole sequence. Its
  key is unset. Its value is, for \<open>_count\<close>, the float64 of the number of rows, and for
  \<open>_sum\<close> the float64 sum \<open>((0 + v1) + v2) + ...\<close> of the row values in their order, each
  addition being the float64 addition. With reduce enabled, \<open>ProcessViewResult\<close> returns
  that one row for the rows that the range selection kept, and \<open>TotalRows = 1\<close>. Where no
  addition rounds, as on the values 1, 2, 3, the sum is the exact one: 6.
\<close>

theorem C5_ungrouped_reduce:
  assumes "reduceFunction = ''_count'' \<or> reduceFunction = ''_sum''"
    and "param ps ''group'' = Null" and "param ps ''group_level'' = Null"
  shows "ReduceViewResult coll num reduceFunction ps result
           = Inr (result\<lparr>Rows := [reduceSpec num reduceFunction (Rows result)]\<rparr>, None)
         \<and> Key (reduceSpec num reduceFunction (Rows result)) = Null
         \<and> Value (reduceSpec num ''_count'' (Rows result))
             = Float64 (float64 num (int (length (Rows result))))
         \<and> Value (reduceSpec num ''_sum'' (Rows result))
             = Float64 (sumFrom num (float64 num 0)
                         (map (\<lambda>r. collationToFloat64 num (Value r)) (Rows result)))
         \<and> Value (reduceSpec num ''_sum'' (valuedRows [Float64 v1, Float64 v2, Float64 v3]))
             = Float64 (plus64 num (plus64 num (plus64 num (float64 num 0) v1) v2) v3)
         \<and> (reduceOf ps \<and> \<not> reverseOf ps \<and> \<not> includeDocsOf ps
              \<and> boundaries ps = (startkey, endkey, inclusiveEnd) \<longrightarrow>
            ProcessViewResult coll num unmarshal result ps bucket reduceFunction
              = Inr (\<lparr>TotalRows = 1,
                      Rows = [reduceSpec num reduceFunction
                                (trimEnd coll endkey inclusiveEnd
                                   (applyLimit (limitOf ps) (trimStart coll startkey (Rows result))))]\<rparr>,
                     None))
         \<and> ProcessViewResult coll' exactArith unmarshal'
              \<lparr>TotalRows = 3, Rows = valuedRows [Float64 1, Float64 2, Float64 3]\<rparr> Map.empty bucket
              ''_sum''
             = Inr (\<lparr>TotalRows = 1, Rows = [\<lparr>ID = [], Key = Null, Value = Float64 6, Doc = None\<rparr>]\<rparr>,
                    None)"
proof -
  have g: "groupLevelOf ps = Inr 0" using assms(2,3) by (rule groupLevelOf_none)
  have ne: "reduceFunction \<noteq> []" using assms(1) by auto
  have r: "ReduceViewResult coll num reduceFunction ps res
           = Inr (res\<lparr>Rows := [reduceSpec num reduceFunction (Rows res)]\<rparr>, None)" for res
    using assms(1) g by (rule ReduceViewResult_ungrouped)
  have 1: "ReduceViewResult coll num reduceFunction ps result
           = Inr (result\<lparr>Rows := [reduceSpec num reduceFunction (Rows result)]\<rparr>, None)"
    by (rule r)
  have 2: "Key (reduceSpec num reduceFunction (Rows result)) = Null"
    by (simp add: reduceSpec_def)
  have 3: "Value (reduceSpec num ''_count'' (Rows result))
           = Float64 (float64 num (int (length (Rows result))))"
    by (simp add: reduceSpec_def)
  have 4: "Value (reduceSpec num ''_sum'' (Rows result))
             = Float64 (sumFrom num (float64 num 0)
                         (map (\<lambda>r. collationToFloat64 num (Value r)) (Rows result)))"
    by (simp add: reduceSpec_def)
  have 5: "Value (reduceSpec num ''_sum'' (valuedRows [Float64 v1, Float64 v2, Float64 v3]))
             = Float64 (plus64 num (plus64 num (plus64 num (float64 num 0) v1) v2) v3)"
    by (simp add: reduceSpec_def valuedRows_def)
  have 6: "reduceOf ps \<and> \<not> reverseOf ps \<and> \<not> includeDocsOf ps
              \<and> boundaries ps = (startkey, endkey, inclusiveEnd) \<longrightarrow>
            ProcessViewResult coll num unmarshal result ps bucket reduceFunction
              = Inr (\<lparr>TotalRows = 1,
                      Rows = [reduceSpec num reduceFunction
                                (trimEnd coll endkey inclusiveEnd
                                   (applyLimit (limitOf ps) (trimStart coll startkey (Rows result))))]\<rparr>,
                     None)"
    using ne by (simp add: ProcessViewResult_def r)
  show ?thesis
    by (intro conjI 1 2 3 4 5 6 example_sum_1_2_3)
qed

theorem C5_ungrouped_reduce_witness:
  "(''_count'' = ''_count'' \<or> ''_count'' = ''_sum'')
   \<and> param ([''reduce'' \<mapsto> Bool True] :: real params) ''group'' = Null
   \<and> param ([''reduce'' \<mapsto> Bool True] :: real params) ''group_level'' = Null
   \<and> ReduceViewResult Collate exactArith ''_count'' [''reduce'' \<mapsto> Bool True]
         \<lparr>TotalRows = 0, Rows = []\<rparr>
       = Inr (\<lparr>TotalRows = 0, Rows = [\<lparr>ID = [], Key = Null, Value = Float64 0, Doc = None\<rparr>]\<rparr>, None)
   \<and> reduceOf ([''reduce'' \<mapsto> Bool True] :: real params)
   \<and> \<not> reverseOf ([''reduce'' \<mapsto> Bool True] :: real params)
   \<and> \<not> includeDocsOf ([''reduce'' \<mapsto> Bool True] :: real params)
   \<and> boundaries ([''reduce'' \<mapsto> Bool True] :: real params) = (Null, Null, True)
   \<and> ProcessViewResult Collate exactArith noUnmarshal \<lparr>TotalRows = 0, Rows = []\<rparr>
         [''reduce'' \<mapsto> Bool True] noBucket ''_count''
       = Inr (\<lparr>TotalRows = 1, Rows = [\<lparr>ID = [], Key = Null, Value = Float64 0, Doc = None\<rparr>]\<rparr>, None)"
proof -
  let ?ps = "[''reduce'' \<mapsto> Bool True] :: real params"
  let ?res = "\<lparr>TotalRows = 0, Rows = []\<rparr> :: real ViewResult"
  have h1: "''_count'' = ''_count'' \<or> ''_count'' = ''_sum''" by simp
  have h2: "param ?ps ''group'' = Null" by (simp add: param_def)
  have h3: "param ?ps ''group_level'' = Null" by (simp add: param_def)
  have h4: "reduceOf ?ps" "\<not> reverseOf ?ps" "\<not> includeDocsOf ?ps" "boundaries ?ps = (Null, Null, True)"
    by (simp_all add: evalParams)
  note t = C5_ungrouped_reduce [where coll = Collate and num = exactArith and result = ?res
      and startkey = Null and endkey = Null and inclusiveEnd = True and unmarshal = noUnmarshal
      and bucket = noBucket, OF h1 h2 h3]
  have r: "reduceSpec exactArith ''_count'' ([] :: real ViewRow list)
           = \<lparr>ID = [], Key = Null, Value = Float64 0, Doc = None\<rparr>"
    by (simp add: reduceSpec_def exactArith_def)
  have a: "ReduceViewResult Collate exactArith ''_count'' ?ps ?res
           = Inr (\<lparr>TotalRows = 0, Rows = [\<lparr>ID = [], Key = Null, Value = Float64 0, Doc = None\<rparr>]\<rparr>, None)"
    using t [THEN conjunct1] by (simp add: r)
  have "ProcessViewResult Collate exactArith noUnmarshal ?res ?ps noBucket ''_count''
        = Inr (\<lparr>TotalRows = 1,
                Rows = [reduceSpec exactArith ''_count''
                          (trimEnd Collate Null True
                             (applyLimit (limitOf ?ps) (trimStart Collate Null (Rows ?res))))]\<rparr>, None)"
    using t [THEN conjunct2, THEN conjunct2, THEN conjunct2, THEN conjunct2, THEN conjunct2,
        THEN conjunct1] h4 by blast
  then have b: "ProcessViewResult Collate exactArith noUnmarshal ?res ?ps noBucket ''_count''
        = Inr (\<lparr>TotalRows = 1, Rows = [\<lparr>ID = [], Key = Null, Value = Float64 0, Doc = None\<rparr>]\<rparr>, None)"
    by (simp add: trimStart_def trimEnd_def applyLimit_def r)
  show ?thesis
    using h1 h2 h3 a h4 b by (intro conjI)
qed

section \<open>Grouped reduction\<close>



























section \<open>Inlined documents\<close>

lemma inlineDocs_spec:
  "inlineDocs unmarshal bucket rows
   = (map (attachDoc unmarshal bucket) (takeWhile (\<lambda>r. \<not> fetchFails bucket r) rows)
        @ dropWhile (\<lambda>r. \<not> fetchFails bucket r) rows,
      firstFetchError bucket rows)"
proof (induction rows)
  case Nil
  then show ?case by (simp add: firstFetchError_def)
next
  case (Cons row rows)
  show ?case
  proof (cases "bucket (ID row)")
    case (Inl err)
    then show ?thesis by (simp add: fetchFails_def firstFetchError_def)
  next
    case (Inr raw)
    then show ?thesis using Cons
      by (simp add: fetchFails_def firstFetchError_def attachDoc_def Let_def)
  qed
qed

lemma firstFetchError_None: "firstFetchError bucket rows = None \<longleftrightarrow> (\<forall>r\<in>set rows. \<not> fetchFails bucket r)"
proof
  assume n: "firstFetchError bucket rows = None"
  show "\<forall>r\<in>set rows. \<not> fetchFails bucket r"
  proof (cases "dropWhile (\<lambda>r. \<not> fetchFails bucket r) rows")
    case Nil
    then show ?thesis by (simp add: dropWhile_eq_Nil_conv)
  next
    case (Cons r rs)
    then have "fetchFails bucket r" using hd_dropWhile [of "\<lambda>r. \<not> fetchFails bucket r" rows] by simp
    then show ?thesis using n Cons
      by (simp add: firstFetchError_def fetchFails_def split: sum.splits)
  qed
next
  assume "\<forall>r\<in>set rows. \<not> fetchFails bucket r"
  then have "dropWhile (\<lambda>r. \<not> fetchFails bucket r) rows = []" by (simp add: dropWhile_eq_Nil_conv)
  then show "firstFetchError bucket rows = None" by (simp only: firstFetchError_def list.case)
qed

lemma groupRows_no_error:
  assumes f: "\<And>rs. reduceFun rs = (red rs, None)"
  shows "groupRows coll groupLevel reduceFun rows key inRows outRows \<noteq> Inr (Inl err)"
proof (induction rows arbitrary: key inRows outRows)
  case Nil
  then show ?case by simp
next
  case (Cons row rows)
  show ?case
  proof (cases "groupKey groupLevel (Key row)")
    case (Inl q)
    then show ?thesis by simp
  next
    case (Inr inKey)
    show ?thesis
    proof (cases "coll inKey key = 0")
      case True
      then show ?thesis using Cons.IH Inr by simp
    next
      case False
      then show ?thesis using Cons.IH Inr f by simp
    qed
  qed
qed

lemma ReduceViewResult_known_no_error:
  assumes rf: "reduceFunction = ''_count'' \<or> reduceFunction = ''_sum''"
  shows "ReduceViewResult coll num reduceFunction ps result \<noteq> Inr (res, Some err)"
proof -
  let ?f = "\<lambda>rows. (reduceSpec num reduceFunction rows, None :: error option)"
  have "groupRows coll groupLevel ?f rows key [] [] \<noteq> Inr (Inl e)" for groupLevel rows key e
    by (rule groupRows_no_error [of ?f "reduceSpec num reduceFunction"]) simp
  then show ?thesis
    by (auto simp: ReduceViewResult_def ReduceFunc_known [OF rf]
        split: sum.splits list.splits prod.splits option.splits if_splits)
qed

text \<open>
  C8, as stated, fails: with \<open>include_docs\<close> true and a fetch that succeeds for the only
  row, \<open>ProcessViewResult\<close> still returns an error, the one of the reduce stage for an
  unsupported reduce function.
\<close>

theorem C8_include_docs_counterexample:
  "ProcessViewResult Collate exactArith lengthUnmarshal
     \<lparr>TotalRows = 1, Rows = [\<lparr>ID = ''a'', Key = Float64 1, Value = Null, Doc = None\<rparr>]\<rparr>
     [''include_docs'' \<mapsto> Bool True] oneDocBucket ''_stats''
   = Inr (\<lparr>TotalRows = 1,
           Rows = [\<lparr>ID = ''a'', Key = Float64 1, Value = Null, Doc = Some (Float64 1)\<rparr>]\<rparr>,
          Some UnsupportedReduceFunction)
   \<and> oneDocBucket ''a'' = Inr [1]"
  by (simp add: ProcessViewResult_def evalParams evalRange Let_def oneDocBucket_def
      lengthUnmarshal_def ReduceViewResult_def ReduceFunc_def)

text \<open>
  C8, amended: when \<open>include_docs\<close> is true and \<open>reverse\<close> is not, the document of every
  row that the range selection kept is fetched by the row's \<open>ID\<close>, in order, decoded and
  attached as the row's \<open>Doc\<close>. \<open>ProcessViewResult\<close> returns an error if and only if some
  fetch fails or the reduce stage is reached with a reduce function other than \<open>_count\<close>
  and \<open>_sum\<close>. When a fetch fails the pipeline stops there: the error is the one of the
  first failing fetch, the rows are returned with the documents attached so far, no
  reduction runs and \<open>TotalRows\<close> is left as it was. When no fetch fails and no reduction
  is asked for, the result is the kept rows with their documents.
\<close>

theorem C8_include_docs:
  assumes "includeDocsOf ps" and "\<not> reverseOf ps"
    and "boundaries ps = (startkey, endkey, inclusiveEnd)"
    and "kept = trimEnd coll endkey inclusiveEnd
                  (applyLimit (limitOf ps) (trimStart coll startkey (Rows result)))"
  shows "((\<exists>res err. ProcessViewResult coll num unmarshal result ps bucket reduceFunction
                        = Inr (res, Some err))
          = ((\<exists>r\<in>set kept. fetchFails bucket r)
             \<or> reduceOf ps \<and> reduceFunction \<noteq> [] \<and> reduceFunction \<noteq> ''_count''
               \<and> reduceFunction \<noteq> ''_sum''))
         \<and> ((\<exists>r\<in>set kept. fetchFails bucket r) \<longrightarrow>
              ProcessViewResult coll num unmarshal result ps bucket reduceFunction
                = Inr (result\<lparr>Rows := map (attachDoc unmarshal bucket)
                                          (takeWhile (\<lambda>r. \<not> fetchFails bucket r) kept)
                                        @ dropWhile (\<lambda>r. \<not> fetchFails bucket r) kept\<rparr>,
                       firstFetchError bucket kept)
              \<and> firstFetchError bucket kept \<noteq> None)
         \<and> ((\<forall>r\<in>set kept. \<not> fetchFails bucket r) \<and> \<not> (reduceOf ps \<and> reduceFunction \<noteq> []) \<longrightarrow>
              ProcessViewResult coll num unmarshal result ps bucket reduceFunction
                = Inr (\<lparr>TotalRows = int (length kept),
                        Rows = map (attachDoc unmarshal bucket) kept\<rparr>, None))"
proof (cases "\<exists>r\<in>set kept. fetchFails bucket r")
  case True
  then have e: "firstFetchError bucket kept \<noteq> None" by (simp add: firstFetchError_None)
  then obtain err where err: "firstFetchError bucket kept = Some err" by blast
  have "ProcessViewResult coll num unmarshal result ps bucket reduceFunction
        = Inr (result\<lparr>Rows := map (attachDoc unmarshal bucket)
                                  (takeWhile (\<lambda>r. \<not> fetchFails bucket r) kept)
                                @ dropWhile (\<lambda>r. \<not> fetchFails bucket r) kept\<rparr>,
               firstFetchError bucket kept)"
    using assms(1,2,3) err
    by (simp add: ProcessViewResult_def assms(4) [symmetric] inlineDocs_spec)
  with True e err show ?thesis by simp
next
  case False
  then have n: "firstFetchError bucket kept = None" by (simp add: firstFetchError_None)
  have all: "takeWhile (\<lambda>r. \<not> fetchFails bucket r) kept = kept"
    "dropWhile (\<lambda>r. \<not> fetchFails bucket r) kept = []"
    using False by (simp_all add: takeWhile_eq_all_conv dropWhile_eq_Nil_conv)
  have i: "inlineDocs unmarshal bucket kept = (map (attachDoc unmarshal bucket) kept, None)"
    by (simp add: inlineDocs_spec n all)
  show ?thesis
  proof (cases "reduceOf ps \<and> reduceFunction \<noteq> []")
    case noreduce: False
    have "ProcessViewResult coll num unmarshal result ps bucket reduceFunction
                = Inr (\<lparr>TotalRows = int (length kept),
                        Rows = map (attachDoc unmarshal bucket) kept\<rparr>, None)"
      using assms(1,2,3) noreduce by (auto simp: ProcessViewResult_def assms(4) [symmetric] i)
    with False noreduce show ?thesis by auto
  next
    case reduce: True
    let ?r = "result\<lparr>Rows := map (attachDoc unmarshal bucket) kept\<rparr>"
    have p: "ProcessViewResult coll num unmarshal result ps bucket reduceFunction
          = (case ReduceViewResult coll num reduceFunction ps ?r of
               Inl p \<Rightarrow> Inl p
             | Inr (res, Some err) \<Rightarrow> Inr (res, Some err)
             | Inr (res, None) \<Rightarrow> Inr (res\<lparr>TotalRows := int (length (Rows res))\<rparr>, None))"
      using assms(1,2,3) reduce by (simp add: ProcessViewResult_def assms(4) [symmetric] i)
    show ?thesis
    proof (cases "reduceFunction = ''_count'' \<or> reduceFunction = ''_sum''")
      case known: True
      have "ReduceViewResult coll num reduceFunction ps ?r \<noteq> Inr (res, Some err)" for res err
        using known by (rule ReduceViewResult_known_no_error)
      then have "ProcessViewResult coll num unmarshal result ps bucket reduceFunction \<noteq> Inr (res, Some err)"
        for res err
        unfolding p by (auto split: sum.splits prod.splits option.splits)
      with False reduce known show ?thesis by auto
    next
      case unknown: False
      have "ReduceViewResult coll num reduceFunction ps ?r = Inr (?r, Some UnsupportedReduceFunction)"
        using unknown by (simp add: ReduceViewResult_def ReduceFunc_unknown)
      then have "ProcessViewResult coll num unmarshal result ps bucket reduceFunction
                 = Inr (?r, Some UnsupportedReduceFunction)"
        unfolding p by simp
      with False reduce unknown show ?thesis by auto
    qed
  qed
qed

theorem C8_include_docs_witness:
  "includeDocsOf ([''include_docs'' \<mapsto> Bool True] :: real params)
   \<and> \<not> reverseOf ([''include_docs'' \<mapsto> Bool True] :: real params)
   \<and> boundaries ([''include_docs'' \<mapsto> Bool True] :: real params) = (Null, Null, True)
   \<and> fetchFails oneDocBucket \<lparr>ID = ''b'', Key = Float64 (2::real), Value = Null, Doc = None\<rparr>
   \<and> ProcessViewResult Collate exactArith lengthUnmarshal
         \<lparr>TotalRows = 3,
          Rows = [\<lparr>ID = ''a'', Key = Float64 1, Value = Null, Doc = None\<rparr>,
                  \<lparr>ID = ''b'', Key = Float64 2, Value = Null, Doc = None\<rparr>,
                  \<lparr>ID = ''a'', Key = Float64 3, Value = Null, Doc = None\<rparr>]\<rparr>
         [''include_docs'' \<mapsto> Bool True] oneDocBucket ''_count''
       = Inr (\<lparr>TotalRows = 3,
               Rows = [\<lparr>ID = ''a'', Key = Float64 1, Value = Null, Doc = Some (Float64 1)\<rparr>,
                       \<lparr>ID = ''b'', Key = Float64 2, Value = Null, Doc = None\<rparr>,
                       \<lparr>ID = ''a'', Key = Float64 3, Value = Null, Doc = None\<rparr>]\<rparr>,
              Some (FetchFailed ''b''))
   \<and> \<not> fetchFails oneDocBucket \<lparr>ID = ''a'', Key = Float64 (1::real), Value = Null, Doc = None\<rparr>
   \<and> ProcessViewResult Collate exactArith lengthUnmarshal
         \<lparr>TotalRows = 7, Rows = [\<lparr>ID = ''a'', Key = Float64 1, Value = Null, Doc = None\<rparr>]\<rparr>
         [''include_docs'' \<mapsto> Bool True] oneDocBucket []
       = Inr (\<lparr>TotalRows = 1,
               Rows = [\<lparr>ID = ''a'', Key = Float64 1, Value = Null, Doc = Some (Float64 1)\<rparr>]\<rparr>,
              None)"
proof -
  let ?ps = "[''include_docs'' \<mapsto> Bool True] :: real params"
  let ?rows = "[\<lparr>ID = ''a'', Key = Float64 1, Value = Null, Doc = None\<rparr>,
                \<lparr>ID = ''b'', Key = Float64 2, Value = Null, Doc = None\<rparr>,
                \<lparr>ID = ''a'', Key = Float64 3, Value = Null, Doc = None\<rparr>] :: real ViewRow list"
  let ?one = "[\<lparr>ID = ''a'', Key = Float64 1, Value = Null, Doc = None\<rparr>] :: real ViewRow list"
  have h1: "includeDocsOf ?ps" by (simp add: evalParams)
  have h2: "\<not> reverseOf ?ps" by (simp add: evalParams)
  have h3: "boundaries ?ps = (Null, Null, True)" by (simp add: evalParams)
  have h4: "?rows = trimEnd Collate Null True
                      (applyLimit (limitOf ?ps) (trimStart Collate Null (Rows \<lparr>TotalRows = 3, Rows = ?rows\<rparr>)))"
    by (simp add: trimEnd_def trimStart_def applyLimit_def evalParams)
  have h5: "?one = trimEnd Collate Null True
                      (applyLimit (limitOf ?ps) (trimStart Collate Null (Rows \<lparr>TotalRows = 7, Rows = ?one\<rparr>)))"
    by (simp add: trimEnd_def trimStart_def applyLimit_def evalParams)
  have r: "\<not> (reduceOf ?ps \<and> ([]::string) \<noteq> [])" by simp
  show ?thesis
    using h1 h2 h3 r
      C8_include_docs [where num = exactArith and unmarshal = lengthUnmarshal
        and bucket = oneDocBucket and reduceFunction = "''_count''", OF h1 h2 h3 h4]
      C8_include_docs [where num = exactArith and unmarshal = lengthUnmarshal
        and bucket = oneDocBucket and reduceFunction = "[]", OF h1 h2 h3 h5]
    by (simp add: fetchFails_def oneDocBucket_def attachDoc_def lengthUnmarshal_def
        firstFetchError_def)
qed

section \<open>Running the pipeline again\<close>


















end
